theory Spec2Isabelle
  imports Main "HOL-Library.AList" "HOL-Library.Multiset"
begin

section \<open>Deduplication of package records (maliciousPackageService.deduplicatePackages)\<close>

text \<open>
  The collectors emit objects with the fields \<open>name\<close>, \<open>version\<close>, \<open>label\<close>, \<open>source\<close>
  and \<open>confidence\<close> (further descriptive fields such as \<open>summary\<close> play no part in the
  merge and are left out). The confidence strings of the services are
  \<open>"medium"\<close>, \<open>"high"\<close> and \<open>"very-high"\<close>; \<open>"low"\<close> completes the enumeration.
  The merge adds the field \<open>sources\<close>.
\<close>

datatype confidence = Low | Medium | High | VeryHigh

fun conf_rank :: "confidence \<Rightarrow> nat" where
  "conf_rank Low = 0"
| "conf_rank Medium = 1"
| "conf_rank High = 2"
| "conf_rank VeryHigh = 3"

record package =
  name :: string
  version :: string
  label :: string
  source :: string
  confidence :: confidence

record merged_package = package +
  sources :: "string list"

text \<open>The key of the JavaScript \<open>Map\<close>: the template string \<open>`${pkg.name}@${pkg.version}`\<close>.\<close>

definition pkg_key :: "'a package_scheme \<Rightarrow> string" where
  "pkg_key pkg = name pkg @ ''@'' @ version pkg"

text \<open>
  \<open>{ ...pkg, sources: [pkg.source] }\<close>: a copy of the object whose \<open>sources\<close> field is
  set (and replaced, when the object already had one).
\<close>

definition fresh_entry :: "'a package_scheme \<Rightarrow> merged_package" where
  "fresh_entry pkg =
     \<lparr>name = name pkg, version = version pkg, label = label pkg, source = source pkg,
      confidence = confidence pkg, sources = [source pkg]\<rparr>"

text \<open>
  The \<open>else\<close> branch of the loop body, on the object \<open>existing\<close> found in the map:
  push the source when it is not included yet, then set the confidence to \<open>"high"\<close>
  when \<open>existing.sources.length > 1\<close>.
\<close>

definition absorb :: "merged_package \<Rightarrow> 'a package_scheme \<Rightarrow> merged_package" where
  "absorb existing pkg =
     (let e1 = (if source pkg \<in> set (sources existing) then existing
                else existing\<lparr>sources := sources existing @ [source pkg]\<rparr>)
      in if length (sources e1) > 1 then e1\<lparr>confidence := High\<rparr> else e1)"

text \<open>
  A JavaScript \<open>Map\<close> keeps its keys in insertion order: it is an association list, and
  \<open>AList.update\<close> is \<open>map.set\<close> (an existing key keeps its place, a new key goes to the
  end). The object \<open>existing\<close> is mutated in place, which is an update at its own key.
\<close>

definition merge_step ::
  "(string \<times> merged_package) list \<Rightarrow> 'a package_scheme \<Rightarrow> (string \<times> merged_package) list" where
  "merge_step m pkg =
     (let key = pkg_key pkg in
      case map_of m key of
        None \<Rightarrow> AList.update key (fresh_entry pkg) m
      | Some existing \<Rightarrow> AList.update key (absorb existing pkg) m)"

definition deduplicatePackages :: "'a package_scheme list \<Rightarrow> merged_package list" where
  "deduplicatePackages packages = map snd (foldl merge_step [] packages)"

text \<open>Auxiliary notions for the analysis of the merge, not part of the service.\<close>

definition absorb_opt :: "merged_package option \<Rightarrow> 'a package_scheme \<Rightarrow> merged_package option" where
  "absorb_opt eo p = Some (case eo of None \<Rightarrow> fresh_entry p | Some e \<Rightarrow> absorb e p)"

definition entry_inv :: "merged_package \<Rightarrow> bool" where
  "entry_inv e \<longleftrightarrow> distinct (sources e) \<and> (1 < length (sources e) \<longrightarrow> confidence e = High)"

definition keyed :: "(string \<times> merged_package) list \<Rightarrow> bool" where
  "keyed m \<longleftrightarrow> (\<forall>x \<in> set m. pkg_key (snd x) = fst x)"


section \<open>Errors\<close>

text \<open>
  The thrown values are \<open>Error\<close> objects, possibly carrying an HTTP response (axios).
  The code reads \<open>error.message\<close>, \<open>error.status\<close>, \<open>error.response?.status\<close> and
  \<open>error.response?.headers['retry-after']\<close>. A response may lack its \<open>headers\<close>
  (\<open>None\<close>); the headers map the lower-case header names to their values, which are
  strings.
\<close>

record response =
  resp_status :: "nat option"
  headers :: "(string \<rightharpoonup> string) option"

record js_error =
  message :: string
  status :: "nat option"
  response :: "response option"


section \<open>Single-package collection (DataCollectionOrchestrator.collectPackageData)\<close>

text \<open>
  Of the metadata object the orchestrator reads \<open>metadata.version\<close>,
  \<open>metadata.repository\<close> (tested for truthiness) and
  \<open>metadata.versions?.[metadata.version]?.dist?.tarball\<close>. A missing or falsy value is
  \<open>None\<close>.
\<close>

record version_data =
  dist_tarball :: "string option"

record metadata =
  md_version :: string
  repository :: "string option"
  versions :: "string \<rightharpoonup> version_data"

definition tarball_of :: "metadata \<Rightarrow> string option" where
  "tarball_of md = (case versions md (md_version md) of None \<Rightarrow> None | Some vd \<Rightarrow> dist_tarball vd)"

text \<open>
  The services the orchestrator calls are external collaborators: each is a function
  that returns a payload or raises.
\<close>

record 'p services =
  fetchFromNpmRegistry :: "string \<Rightarrow> string \<Rightarrow> js_error + metadata"
  fetchDependencies :: "string \<Rightarrow> string \<Rightarrow> js_error + 'p"
  getVulnerabilities :: "string \<Rightarrow> string \<Rightarrow> string \<Rightarrow> js_error + 'p"
  getPackageGitHubData :: "metadata \<Rightarrow> js_error + 'p"
  extractStaticAnalysisFeatures :: "string \<Rightarrow> string \<Rightarrow> string \<Rightarrow> js_error + 'p"

record options =
  includeStaticAnalysis :: bool
  includeGitHubData :: bool
  includeVulnerabilities :: bool
  includeDependencies :: bool

text \<open>The defaults of the destructuring \<open>const { ... } = options\<close>.\<close>

definition default_options :: options where
  "default_options =
     \<lparr>includeStaticAnalysis = False, includeGitHubData = True,
      includeVulnerabilities = True, includeDependencies = True\<rparr>"

text \<open>
  A value stored in \<open>collectionResults.data\<close>: the metadata, an aspect's payload, or the
  object \<open>{ error: error.message }\<close>.
\<close>

datatype 'p aspect_value = Metadata metadata | Payload 'p | ErrorDescriptor string

text \<open>
  The state of one collection: the service calls made so far, in order (named by the
  key of the aspect they serve), and the \<open>data\<close> object.
\<close>

record 'p collection_state =
  calls :: "string list"
  cdata :: "string \<rightharpoonup> 'p aspect_value"

text \<open>The field \<open>collectedAt\<close> (a time stamp) is left out.\<close>

record 'p collection_results =
  packageName :: string
  requested_version :: string
  data :: "string \<rightharpoonup> 'p aspect_value"

text \<open>
  One guarded step: \<open>try { data[key] = await call } catch (error) { data[key] = { error:
  error.message } }\<close>. The call is made (and logged in \<open>calls\<close>) in either case.
\<close>

definition try_aspect ::
  "string \<Rightarrow> js_error + 'p \<Rightarrow> 'p collection_state \<Rightarrow> 'p collection_state" where
  "try_aspect key outcome st =
     \<lparr>calls = calls st @ [key],
      cdata = (cdata st)(key \<mapsto>
        (case outcome of Inr v \<Rightarrow> Payload v | Inl err \<Rightarrow> ErrorDescriptor (message err)))\<rparr>"

text \<open>
  The result is the list of calls made, and either the error that the outer
  \<open>catch\<close> rethrows or the collection results. The optional write to the database
  catches its own errors and does not touch the results; it is left out.
\<close>

definition collectPackageData ::
  "'p services \<Rightarrow> string \<Rightarrow> string \<Rightarrow> options \<Rightarrow>
     string list \<times> (js_error + 'p collection_results)" where
  "collectPackageData svc pname ver opts =
     (case fetchFromNpmRegistry svc pname ver of
        Inl err \<Rightarrow> ([''metadata''], Inl err)
      | Inr md \<Rightarrow>
          let s1 = \<lparr>calls = [''metadata''], cdata = [''metadata'' \<mapsto> Metadata md]\<rparr>;
              s2 = (if includeDependencies opts
                    then try_aspect ''dependencies'' (fetchDependencies svc pname (md_version md)) s1
                    else s1);
              s3 = (if includeVulnerabilities opts
                    then try_aspect ''vulnerabilities''
                           (getVulnerabilities svc pname (md_version md) ''all'') s2
                    else s2);
              s4 = (if includeGitHubData opts \<and> repository md \<noteq> None
                    then try_aspect ''github'' (getPackageGitHubData svc md) s3
                    else s3);
              s5 = (if includeStaticAnalysis opts
                    then (case tarball_of md of
                            None \<Rightarrow> s4
                          | Some tarballUrl \<Rightarrow>
                              try_aspect ''staticAnalysis''
                                (extractStaticAnalysisFeatures svc pname (md_version md) tarballUrl) s4)
                    else s4)
          in (calls s5,
              Inr \<lparr>packageName = pname, requested_version = ver, data = cdata s5\<rparr>))"

text \<open>
  The optional aspects in the order of the code, and those that the options enable.
\<close>

definition aspect_keys :: "string list" where
  "aspect_keys = [''dependencies'', ''vulnerabilities'', ''github'', ''staticAnalysis'']"

definition enabled_aspects :: "options \<Rightarrow> string set" where
  "enabled_aspects opts =
     (if includeDependencies opts then {''dependencies''} else {}) \<union>
     (if includeVulnerabilities opts then {''vulnerabilities''} else {}) \<union>
     (if includeGitHubData opts then {''github''} else {}) \<union>
     (if includeStaticAnalysis opts then {''staticAnalysis''} else {})"

text \<open>
  The settlement of the call that serves an aspect, given the metadata; \<open>None\<close> where
  the guard of the code does not let the call through: GitHub data need
  \<open>metadata.repository\<close>, static analysis needs the tarball URL of the resolved version.
\<close>

definition aspect_call ::
  "'p services \<Rightarrow> string \<Rightarrow> metadata \<Rightarrow> string \<Rightarrow> (js_error + 'p) option" where
  "aspect_call svc pname md key =
     (if key = ''dependencies'' then Some (fetchDependencies svc pname (md_version md))
      else if key = ''vulnerabilities''
        then Some (getVulnerabilities svc pname (md_version md) ''all'')
      else if key = ''github''
        then (if repository md \<noteq> None then Some (getPackageGitHubData svc md) else None)
      else if key = ''staticAnalysis''
        then map_option (extractStaticAnalysisFeatures svc pname (md_version md)) (tarball_of md)
      else None)"

text \<open>What the guarded step stores for a settlement.\<close>

definition recorded :: "js_error + 'p \<Rightarrow> 'p aspect_value" where
  "recorded outcome =
     (case outcome of Inr v \<Rightarrow> Payload v | Inl err \<Rightarrow> ErrorDescriptor (message err))"


section \<open>Batch collection (DataCollectionOrchestrator.batchCollectPackages)\<close>

text \<open>\<open>xs.slice(start, end)\<close> for \<open>0 \<le> start \<le> end\<close>.\<close>

definition slice :: "'a list \<Rightarrow> nat \<Rightarrow> nat \<Rightarrow> 'a list" where
  "slice xs start end = take (end - start) (drop start xs)"

record summary =
  total :: nat
  successful :: nat
  failed :: nat

text \<open>An entry of \<open>errors\<close> is the pair of \<open>package\<close> and \<open>error\<close> (the message).\<close>

record ('i, 'r) batch_result =
  results :: "'r list"
  errors :: "('i \<times> string) list"
  summary :: summary

text \<open>
  The body of \<open>batchResults.forEach((result, index) => ...)\<close>. The index is below the
  length of \<open>batch\<close>, since \<open>batchResults\<close> has one settlement per element of \<open>batch\<close>.
\<close>

fun record_settled ::
  "'i list \<Rightarrow> 'r list \<times> ('i \<times> string) list \<Rightarrow> nat \<times> (js_error + 'r) \<Rightarrow>
     'r list \<times> ('i \<times> string) list" where
  "record_settled batch (rs, es) (index, Inr v) = (rs @ [v], es)"
| "record_settled batch (rs, es) (index, Inl reason) = (rs, es @ [(batch ! index, message reason)])"

text \<open>
  The loop \<open>for (let i = 0; i < packageList.length; i += concurrency)\<close>. The parameter
  \<open>collect\<close> is the settlement of \<open>this.collectPackageData(name, version, collectOptions)\<close>
  for an item; \<open>Promise.allSettled\<close> yields the settlements in the order of the batch.
  With \<open>concurrency = 0\<close> the loop does not advance: the function is partial.
\<close>

partial_function (option) batch_loop ::
  "('i \<Rightarrow> js_error + 'r) \<Rightarrow> nat \<Rightarrow> 'i list \<Rightarrow> nat \<Rightarrow> 'r list \<times> ('i \<times> string) list \<Rightarrow>
     ('r list \<times> ('i \<times> string) list) option" where
  "batch_loop collect concurrency packageList i acc =
     (if i < length packageList
      then let batch = slice packageList i (i + concurrency);
               batchResults = map collect batch
           in batch_loop collect concurrency packageList (i + concurrency)
                (foldl (record_settled batch) acc (enumerate 0 batchResults))
      else Some acc)"

definition batchCollectPackages ::
  "('i \<Rightarrow> js_error + 'r) \<Rightarrow> 'i list \<Rightarrow> nat \<Rightarrow> ('i, 'r) batch_result option" where
  "batchCollectPackages collect packageList concurrency =
     (case batch_loop collect concurrency packageList 0 ([], []) of
        None \<Rightarrow> None
      | Some (rs, es) \<Rightarrow>
          Some \<lparr>results = rs, errors = es,
                summary = \<lparr>total = length packageList, successful = length rs,
                            failed = length es\<rparr>\<rparr>)"

text \<open>The successes and the failures of a list of items, each in the order of the items.\<close>

definition successes :: "('i \<Rightarrow> js_error + 'r) \<Rightarrow> 'i list \<Rightarrow> 'r list" where
  "successes collect xs =
     List.map_filter (\<lambda>x. case collect x of Inr v \<Rightarrow> Some v | Inl e \<Rightarrow> None) xs"

definition failures :: "('i \<Rightarrow> js_error + 'r) \<Rightarrow> 'i list \<Rightarrow> ('i \<times> string) list" where
  "failures collect xs =
     List.map_filter (\<lambda>x. case collect x of Inr v \<Rightarrow> None | Inl e \<Rightarrow> Some (x, message e)) xs"


section \<open>Retry with exponential backoff (apiCallWithRetry)\<close>

text \<open>
  The options \<open>baseDelay\<close> and \<open>maxDelay\<close> are taken to be integers (of any size that a
  double holds), \<open>maxRetries\<close> a natural number.
\<close>

record retry_options =
  maxRetries :: nat
  baseDelay :: int
  maxDelay :: int
  shouldRetry :: "js_error \<Rightarrow> bool"

text \<open>
  The default predicate: \<open>status = error.response?.status || error.status\<close>, where
  \<open>||\<close> passes over a missing status and over the falsy number 0, and a comparison
  with a missing status is false.
\<close>

definition error_status :: "js_error \<Rightarrow> nat option" where
  "error_status err =
     (case response err of
        None \<Rightarrow> status err
      | Some r \<Rightarrow>
          (case resp_status r of
             None \<Rightarrow> status err
           | Some s \<Rightarrow> if s = 0 then status err else Some s))"

definition default_shouldRetry :: "js_error \<Rightarrow> bool" where
  "default_shouldRetry err =
     (case error_status err of
        None \<Rightarrow> False
      | Some s \<Rightarrow> s = 429 \<or> (500 \<le> s \<and> s < 600))"

definition default_retry_options :: retry_options where
  "default_retry_options =
     \<lparr>maxRetries = 3, baseDelay = 1000, maxDelay = 30000, shouldRetry = default_shouldRetry\<rparr>"

text \<open>
  The delays are JavaScript numbers, that is doubles. The model keeps the integers
  among them exactly and has the three values that are not finite.
\<close>

datatype jsnum = Num int | NaN | PosInfinity | NegInfinity

text \<open>\<open>Math.pow(2, n)\<close> for a natural \<open>n\<close>: exact below \<open>2 ^ 1024\<close>, \<open>Infinity\<close> from there on.\<close>

definition pow2 :: "nat \<Rightarrow> jsnum" where
  "pow2 n = (if n < 1024 then Num (2 ^ n) else PosInfinity)"

text \<open>
  \<open>baseDelay * Math.pow(2, attempt - 1)\<close>. The product of a double and a power of two
  is exact unless it overflows; zero times \<open>Infinity\<close> is \<open>NaN\<close>.
\<close>

fun times_pow2 :: "int \<Rightarrow> jsnum \<Rightarrow> jsnum" where
  "times_pow2 b (Num p) =
     (if \<bar>b * p\<bar> < 2 ^ 1024 then Num (b * p)
      else if 0 < b * p then PosInfinity else NegInfinity)"
| "times_pow2 b PosInfinity =
     (if b = 0 then NaN else if 0 < b then PosInfinity else NegInfinity)"
| "times_pow2 b NegInfinity =
     (if b = 0 then NaN else if 0 < b then NegInfinity else PosInfinity)"
| "times_pow2 b NaN = NaN"

text \<open>\<open>Math.min(x, maxDelay)\<close>: \<open>NaN\<close> when an argument is \<open>NaN\<close>.\<close>

fun math_min :: "jsnum \<Rightarrow> int \<Rightarrow> jsnum" where
  "math_min (Num a) m = Num (min a m)"
| "math_min NaN m = NaN"
| "math_min PosInfinity m = Num m"
| "math_min NegInfinity m = NegInfinity"

text \<open>
  \<open>error.response?.headers['retry-after']\<close>: the optional chain covers a missing
  response only. On a response without headers the index throws a \<open>TypeError\<close>.
\<close>

definition lacks_headers :: "js_error \<Rightarrow> bool" where
  "lacks_headers err = (case response err of None \<Rightarrow> False | Some r \<Rightarrow> headers r = None)"

definition type_error :: js_error where
  "type_error =
     \<lparr>message = ''Cannot read properties of undefined'', status = None, response = None\<rparr>"

definition retryAfter :: "js_error \<Rightarrow> string option" where
  "retryAfter err =
     (case response err of
        None \<Rightarrow> None
      | Some r \<Rightarrow> (case headers r of None \<Rightarrow> None | Some h \<Rightarrow> h ''retry-after''))"

text \<open>The test \<open>retryAfter ? ... : ...\<close>: a missing header and the empty string are falsy.\<close>

definition hinted :: "js_error \<Rightarrow> bool" where
  "hinted err = (case retryAfter err of None \<Rightarrow> False | Some s \<Rightarrow> s \<noteq> [])"

text \<open>
  \<open>parseInt(retryAfter) * 1000\<close>. For a header of decimal digits whose product is below
  \<open>2 ^ 53\<close> the value is exact. For any other header (a sign, white space, a hexadecimal
  prefix, an HTTP date, a number too large to be exact) it is what the runtime makes of
  it, possibly \<open>NaN\<close>: the parameter \<open>rt\<close>.
\<close>

definition is_digit :: "char \<Rightarrow> bool" where
  "is_digit c \<longleftrightarrow> 48 \<le> (of_char c :: nat) \<and> (of_char c :: nat) \<le> 57"

definition decimal :: "string \<Rightarrow> nat" where
  "decimal s = foldl (\<lambda>n c. 10 * n + (of_char c - 48)) 0 s"

definition retryAfterMs :: "(string \<Rightarrow> jsnum) \<Rightarrow> string \<Rightarrow> jsnum" where
  "retryAfterMs rt s =
     (if s \<noteq> [] \<and> list_all is_digit s \<and> int (decimal s) * 1000 < 2 ^ 53
      then Num (int (decimal s) * 1000)
      else rt s)"

text \<open>
  \<open>finalDelay\<close> at a failed attempt: the exponential delay capped by \<open>maxDelay\<close>, unless
  the error carries a Retry-After header, which then decides.
\<close>

definition finalDelay :: "(string \<Rightarrow> jsnum) \<Rightarrow> retry_options \<Rightarrow> nat \<Rightarrow> js_error \<Rightarrow> jsnum" where
  "finalDelay rt opts attempt err =
     (let delay = math_min (times_pow2 (baseDelay opts) (pow2 (attempt - 1))) (maxDelay opts)
      in case retryAfter err of
           None \<Rightarrow> delay
         | Some s \<Rightarrow> if s \<noteq> [] then retryAfterMs rt s else delay)"

text \<open>
  The callable has effects: it is a function of a state of type \<open>'s\<close>, which it
  returns updated. The loop returns what \<open>apiCallWithRetry\<close> returns or throws (the
  thrown value is \<open>lastError\<close>, which is \<open>undefined\<close>, here \<open>None\<close>, when the loop body
  never ran), the state of the callable, and the delays passed to \<open>sleep\<close>, in order.
  The \<open>TypeError\<close> of the header access is thrown inside the \<open>catch\<close> block, so it
  leaves the function.
\<close>

function retry_loop ::
  "(string \<Rightarrow> jsnum) \<Rightarrow> ('s \<Rightarrow> (js_error + 'a) \<times> 's) \<Rightarrow> retry_options \<Rightarrow> nat \<Rightarrow>
     js_error option \<Rightarrow> 's \<Rightarrow> jsnum list \<Rightarrow> (js_error option + 'a) \<times> 's \<times> jsnum list" where
  "retry_loop rt apiCall opts attempt lastError st delays =
     (if attempt \<le> maxRetries opts
      then (case fst (apiCall st) of
              Inr v \<Rightarrow> (Inr v, snd (apiCall st), delays)
            | Inl err \<Rightarrow>
                if \<not> shouldRetry opts err \<or> attempt \<ge> maxRetries opts
                then (Inl (Some err), snd (apiCall st), delays)
                else if lacks_headers err
                then (Inl (Some type_error), snd (apiCall st), delays)
                else retry_loop rt apiCall opts (attempt + 1) (Some err) (snd (apiCall st))
                       (delays @ [finalDelay rt opts attempt err]))
      else (Inl lastError, st, delays))"
  by pat_completeness auto
termination
  by (relation "measure (\<lambda>(rt, apiCall, opts, attempt, lastError, st, delays).
        maxRetries opts + 1 - attempt)") auto

declare retry_loop.simps [simp del]

definition apiCallWithRetry ::
  "(string \<Rightarrow> jsnum) \<Rightarrow> ('s \<Rightarrow> (js_error + 'a) \<times> 's) \<Rightarrow> retry_options \<Rightarrow> 's \<Rightarrow>
     (js_error option + 'a) \<times> 's \<times> jsnum list" where
  "apiCallWithRetry rt apiCall opts st = retry_loop rt apiCall opts 1 None st []"

text \<open>
  A callable that fails with the errors \<open>errs\<close>, one per call, and then succeeds with
  \<open>v\<close>; its state counts the calls made.
\<close>

definition flaky :: "js_error list \<Rightarrow> 'a \<Rightarrow> nat \<Rightarrow> (js_error + 'a) \<times> nat" where
  "flaky errs v n = (if n < length errs then Inl (errs ! n) else Inr v, n + 1)"


section \<open>Sliding-window rate limiter (class RateLimiter)\<close>

text \<open>
  Times are in milliseconds. The clock is not under the control of the program: the
  value that a call of \<open>Date.now()\<close> returns is a parameter of the method that makes the
  call. The methods return the limiter they leave behind, since \<open>canMakeRequest\<close>
  prunes \<open>this.requests\<close>.
\<close>

record rate_limiter =
  requestsPerWindow :: int
  windowMs :: int
  requests :: "int list"

definition RateLimiter :: "int \<Rightarrow> int \<Rightarrow> rate_limiter" where
  "RateLimiter rpw w = \<lparr>requestsPerWindow = rpw, windowMs = w, requests = []\<rparr>"

definition canMakeRequest :: "rate_limiter \<Rightarrow> int \<Rightarrow> bool \<times> rate_limiter" where
  "canMakeRequest lim now =
     (let lim' = lim\<lparr>requests := filter (\<lambda>timestamp. now - timestamp < windowMs lim) (requests lim)\<rparr>
      in (int (length (requests lim')) < requestsPerWindow lim', lim'))"

definition recordRequest :: "rate_limiter \<Rightarrow> int \<Rightarrow> rate_limiter" where
  "recordRequest lim now = lim\<lparr>requests := requests lim @ [now]\<rparr>"

text \<open>\<open>Math.min(...xs)\<close>; on no arguments it is \<open>Infinity\<close>, here \<open>None\<close>.\<close>

fun js_min :: "int list \<Rightarrow> int option" where
  "js_min [] = None"
| "js_min (x # xs) = (case js_min xs of None \<Rightarrow> Some x | Some m \<Rightarrow> Some (min x m))"

text \<open>
  The waiting time, \<open>None\<close> for \<open>Infinity\<close>. The method reads the clock in its call of
  \<open>canMakeRequest\<close> (\<open>now1\<close>) and again in its last line (\<open>now2\<close>).
\<close>

definition getTimeUntilNextRequest ::
  "rate_limiter \<Rightarrow> int \<Rightarrow> int \<Rightarrow> int option \<times> rate_limiter" where
  "getTimeUntilNextRequest lim now1 now2 =
     (let (ok, lim') = canMakeRequest lim now1
      in if ok then (Some 0, lim')
         else (case js_min (requests lim') of
                 None \<Rightarrow> (None, lim')
               | Some oldestRequest \<Rightarrow>
                   (Some (max 0 (oldestRequest + windowMs lim' - now2)), lim')))"

text \<open>The test \<open>waitTime > 0\<close>, which holds of \<open>Infinity\<close>.\<close>

definition positive :: "int option \<Rightarrow> bool" where
  "positive waitTime = (case waitTime of None \<Rightarrow> True | Some w \<Rightarrow> 0 < w)"

text \<open>
  \<open>waitUntilCanRequest\<close> runs until its loop exits or until it reaches
  \<open>await sleep(waitTime)\<close>, where it is suspended: these are its two outcomes. When
  the sleep is over, the loop goes on, which is a further run of the function. One
  pass of the loop reads the clock up to three times: in the loop condition, and twice
  in \<open>getTimeUntilNextRequest\<close>. The readings of the passes are a parameter; when they
  do not suffice for a run, the result is \<open>None\<close>.
\<close>

datatype outcome = Admitted | Suspended "int option"

fun waitUntilCanRequest ::
  "rate_limiter \<Rightarrow> (int \<times> int \<times> int) list \<Rightarrow> (rate_limiter \<times> outcome) option" where
  "waitUntilCanRequest lim [] = None"
| "waitUntilCanRequest lim ((t1, t2, t3) # rest) =
     (if fst (canMakeRequest lim t1) then Some (snd (canMakeRequest lim t1), Admitted)
      else let lim1 = snd (canMakeRequest lim t1);
               waitTime = fst (getTimeUntilNextRequest lim1 t2 t3);
               lim2 = snd (getTimeUntilNextRequest lim1 t2 t3)
           in if positive waitTime then Some (lim2, Suspended waitTime)
              else waitUntilCanRequest lim2 rest)"

text \<open>
  \<open>makeRequest\<close> is \<open>await this.waitUntilCanRequest(); this.recordRequest(); return
  await apiCall()\<close>. Its callers share the limiter and run interleaved: a caller runs
  until its next \<open>await\<close>, then another may run. A caller has not called yet (\<open>Idle\<close>),
  or is suspended in \<open>sleep(waitTime)\<close>, or has left \<open>waitUntilCanRequest\<close> and waits at
  the first \<open>await\<close> of \<open>makeRequest\<close> for its continuation (\<open>Passed\<close>), or has recorded
  its request at the time given; the call \<open>apiCall()\<close> that follows is not part of the
  model.
\<close>

datatype caller = Idle | Sleeping "int option" | Passed | Recorded int

text \<open>
  The system: the limiter, the callers, and the log of the calls of \<open>sleep\<close> (the caller
  and the waiting time it asked for).
\<close>

record system =
  limiter :: rate_limiter
  callers :: "caller list"
  sleeps :: "(nat \<times> int option) list"

text \<open>
  What runs next is decided by the scheduler of the runtime and by the timers:
  \<open>Check i rs\<close> lets caller \<open>i\<close> call \<open>makeRequest\<close> (if idle) or wake from its sleep
  (at any time, whatever the delay it asked for), and run the loop with the clock
  readings \<open>rs\<close>; \<open>Resume i t\<close> lets caller \<open>i\<close>, who has passed, continue after its
  \<open>await\<close> and record the request, \<open>Date.now()\<close> being \<open>t\<close>. An event that does not fit
  the state of its caller yields \<open>None\<close>.
\<close>

datatype event = Check nat "(int \<times> int \<times> int) list" | Resume nat int

fun in_loop :: "caller \<Rightarrow> bool" where
  "in_loop Idle = True"
| "in_loop (Sleeping w) = True"
| "in_loop Passed = False"
| "in_loop (Recorded t) = False"

fun turn :: "system \<Rightarrow> event \<Rightarrow> system option" where
  "turn s (Check i rs) =
     (if i < length (callers s) \<and> in_loop (callers s ! i)
      then (case waitUntilCanRequest (limiter s) rs of
              None \<Rightarrow> None
            | Some (lim, Admitted) \<Rightarrow>
                Some (s\<lparr>limiter := lim, callers := (callers s)[i := Passed]\<rparr>)
            | Some (lim, Suspended waitTime) \<Rightarrow>
                Some (s\<lparr>limiter := lim, callers := (callers s)[i := Sleeping waitTime],
                        sleeps := sleeps s @ [(i, waitTime)]\<rparr>))
      else None)"
| "turn s (Resume i t) =
     (if i < length (callers s) \<and> callers s ! i = Passed
      then Some (s\<lparr>limiter := recordRequest (limiter s) t,
                   callers := (callers s)[i := Recorded t]\<rparr>)
      else None)"

fun run :: "system \<Rightarrow> event list \<Rightarrow> system option" where
  "run s [] = Some s"
| "run s (e # es) = (case turn s e of None \<Rightarrow> None | Some s' \<Rightarrow> run s' es)"

text \<open>A new limiter and \<open>n\<close> callers that have not called yet.\<close>

definition start :: "int \<Rightarrow> int \<Rightarrow> nat \<Rightarrow> system" where
  "start rpw w n = \<lparr>limiter = RateLimiter rpw w, callers = replicate n Idle, sleeps = []\<rparr>"

text \<open>The clock readings of a schedule, in the order in which they are taken.\<close>

fun readings :: "event \<Rightarrow> int list" where
  "readings (Check i rs) = concat (map (\<lambda>(t1, t2, t3). [t1, t2, t3]) rs)"
| "readings (Resume i t) = [t]"

definition clock :: "event list \<Rightarrow> int list" where
  "clock es = concat (map readings es)"

text \<open>A waiting time that a caller asked for is finite, more than 0 and at most \<open>w\<close>.\<close>

definition bounded_wait :: "int \<Rightarrow> int option \<Rightarrow> bool" where
  "bounded_wait w waitTime = (case waitTime of None \<Rightarrow> False | Some d \<Rightarrow> 0 < d \<and> d \<le> w)"

definition is_recorded :: "caller \<Rightarrow> bool" where
  "is_recorded c = (case c of Recorded t \<Rightarrow> True | _ \<Rightarrow> False)"


section \<open>Labeled training data (DataCollectionOrchestrator.collectLabeledTrainingData)\<close>

text \<open>\<open>xs.slice(0, n)\<close>: a negative \<open>n\<close> counts from the end.\<close>

definition slice0 :: "'a list \<Rightarrow> int \<Rightarrow> 'a list" where
  "slice0 xs n = (if n < 0 then take (nat (int (length xs) + n)) xs else take (nat n) xs)"

text \<open>
  A package object of the result, and its property \<open>fullData\<close>, which the package
  services never set: it is \<open>None\<close> until the collector assigns it.
\<close>

record ('p, 'r) training_entry =
  pkg :: 'p
  fullData :: "'r option"

record training_summary =
  totalMalicious :: nat
  totalBenign :: nat
  totalWithFullData :: nat

text \<open>The field \<open>collectedAt\<close> (a time stamp) is left out.\<close>

record ('p, 'r) training_results =
  malicious :: "('p, 'r) training_entry list"
  benign :: "('p, 'r) training_entry list"
  training_summary :: training_summary

definition unlabeled :: "'p \<Rightarrow> ('p, 'r) training_entry" where
  "unlabeled p = \<lparr>pkg = p, fullData = None\<rparr>"

text \<open>
  \<open>for (const pkg of list.slice(0, k)) { try { pkg.fullData = await collect } catch { } }\<close>:
  the objects of the slice are those of the list, so the assignment shows in the list.
  The objects of a list are pairwise distinct (the services build each of them anew),
  so an assignment shows at one position only.
\<close>

definition collect_full ::
  "('p \<Rightarrow> js_error + 'r) \<Rightarrow> ('p, 'r) training_entry \<Rightarrow> ('p, 'r) training_entry" where
  "collect_full collect e =
     (case collect (pkg e) of Inr packageData \<Rightarrow> e\<lparr>fullData := Some packageData\<rparr> | Inl err \<Rightarrow> e)"

definition attach_fullData ::
  "('p \<Rightarrow> js_error + 'r) \<Rightarrow> nat \<Rightarrow> ('p, 'r) training_entry list \<Rightarrow> ('p, 'r) training_entry list" where
  "attach_fullData collect k es = map (collect_full collect) (take k es) @ drop k es"

definition has_fullData :: "('p, 'r) training_entry \<Rightarrow> bool" where
  "has_fullData e \<longleftrightarrow> fullData e \<noteq> None"

text \<open>
  The parameters are the settlements of \<open>collectAllMaliciousPackages()\<close>, of
  \<open>collectAllBenignPackages(benignCount)\<close> and, per package, of \<open>collectPackageData\<close>.
\<close>

definition collectLabeledTrainingData ::
  "js_error + 'p list \<Rightarrow> (int \<Rightarrow> js_error + 'p list) \<Rightarrow> ('p \<Rightarrow> js_error + 'r) \<Rightarrow> int \<Rightarrow> int \<Rightarrow>
     js_error + ('p, 'r) training_results" where
  "collectLabeledTrainingData collectAllMalicious collectAllBenign collect maliciousCount benignCount =
     (case collectAllMalicious of
        Inl err \<Rightarrow> Inl err
      | Inr maliciousPackages \<Rightarrow>
          (case collectAllBenign benignCount of
             Inl err \<Rightarrow> Inl err
           | Inr benignPackages \<Rightarrow>
               let m = attach_fullData collect 10
                         (map unlabeled (slice0 maliciousPackages maliciousCount));
                   b = attach_fullData collect 50 (map unlabeled benignPackages)
               in Inr \<lparr>malicious = m, benign = b,
                        training_summary =
                          \<lparr>totalMalicious = length m, totalBenign = length b,
                           totalWithFullData =
                             length (filter has_fullData m @ filter has_fullData b)\<rparr>\<rparr>))"


section \<open>Transitive dependencies (dependenciesService.buildDependencyTree)\<close>

text \<open>An entry of \<open>deps.dependencies\<close>: the name and the version range.\<close>

record dependency =
  dep_name :: string
  dep_version :: string

record transitive_dep =
  td_name :: string
  td_version :: string
  td_type :: string
  depth :: nat
  parent :: string

text \<open>
  \<open>fetch\<close> stands for \<open>this.fetchDependencies\<close> (its field \<open>dependencies\<close>, or the
  error it raises) and \<open>resolve\<close> for \<open>this.resolveVersion\<close>, which catches its own
  errors. Each recursive call gets a copy of the visited set (\<open>new Set(visited)\<close>), so
  the set is passed by value.
\<close>

function buildDependencyTree ::
  "(string \<Rightarrow> string \<Rightarrow> js_error + dependency list) \<Rightarrow> (string \<Rightarrow> string \<Rightarrow> string) \<Rightarrow>
     string \<Rightarrow> string \<Rightarrow> nat \<Rightarrow> nat \<Rightarrow> string set \<Rightarrow> transitive_dep list" where
  "buildDependencyTree fetch resolve pname ver maxDepth currentDepth visited =
     (if currentDepth \<ge> maxDepth then []
      else let key = pname @ ''@'' @ ver in
        if key \<in> visited then []
        else (case fetch pname ver of
                Inl err \<Rightarrow> []
              | Inr deps \<Rightarrow>
                  concat (map (\<lambda>dep.
                    let resolvedVersion = resolve (dep_name dep) (dep_version dep) in
                    \<lparr>td_name = dep_name dep, td_version = resolvedVersion,
                     td_type = ''transitive'', depth = currentDepth + 1, parent = pname\<rparr> #
                    (if currentDepth + 1 < maxDepth
                     then buildDependencyTree fetch resolve (dep_name dep) resolvedVersion
                            maxDepth (currentDepth + 1) (insert key visited)
                     else [])) deps)))"
  by pat_completeness auto
termination
  by (relation "measure (\<lambda>(fetch, resolve, pname, ver, maxDepth, currentDepth, visited).
        maxDepth - currentDepth)") auto

declare buildDependencyTree.simps [simp del]


section \<open>Sample inputs\<close>

text \<open>A record for the package \<open>evil-pkg@1.0.0\<close> as a collector reports it.\<close>

definition sample_pkg :: "string \<Rightarrow> confidence \<Rightarrow> package" where
  "sample_pkg src c =
     \<lparr>name = ''evil-pkg'', version = ''1.0.0'', label = ''malicious'', source = src,
      confidence = c\<rparr>"


definition sample_error :: "string \<Rightarrow> js_error" where
  "sample_error msg = \<lparr>message = msg, status = None, response = None\<rparr>"

text \<open>Five items \<open>a\<close> to \<open>e\<close>, of which the collection of \<open>c\<close> fails.\<close>

definition sample_collect :: "string \<Rightarrow> js_error + string" where
  "sample_collect x = (if x = ''c'' then Inl (sample_error ''Package c not found'') else Inr x)"


text \<open>
  The services of the scenario: the metadata of \<open>left-pad@1.3.0\<close> name no repository and
  no tarball, and the dependency service raises.
\<close>

definition sample_metadata :: metadata where
  "sample_metadata = \<lparr>md_version = ''1.3.0'', repository = None, versions = Map.empty\<rparr>"

definition sample_services :: "string services" where
  "sample_services =
     \<lparr>fetchFromNpmRegistry = (\<lambda>n v. Inr sample_metadata),
      fetchDependencies = (\<lambda>n v. Inl (sample_error ''Unexpected token < in JSON'')),
      getVulnerabilities = (\<lambda>n v f. Inr ''no known vulnerabilities''),
      getPackageGitHubData = (\<lambda>md. Inr ''stars: 1000''),
      extractStaticAnalysisFeatures = (\<lambda>n v u. Inr ''no eval'')\<rparr>"

definition sample_options :: options where
  "sample_options =
     \<lparr>includeStaticAnalysis = False, includeGitHubData = False,
      includeVulnerabilities = True, includeDependencies = True\<rparr>"


text \<open>
  Three retryable errors: a 429 whose response asks to retry after 60 seconds, a 503
  without a Retry-After header, and a 503 whose response has no headers at all.
\<close>

definition rate_limited :: js_error where
  "rate_limited =
     \<lparr>message = ''Request failed with status code 429'', status = None,
      response = Some \<lparr>resp_status = Some 429,
                       headers = Some [''retry-after'' \<mapsto> ''60'']\<rparr>\<rparr>"

definition unavailable :: js_error where
  "unavailable =
     \<lparr>message = ''Request failed with status code 503'', status = None,
      response = Some \<lparr>resp_status = Some 503, headers = Some Map.empty\<rparr>\<rparr>"

definition bare_response :: js_error where
  "bare_response =
     \<lparr>message = ''Request failed with status code 503'', status = None,
      response = Some \<lparr>resp_status = Some 503, headers = None\<rparr>\<rparr>"

text \<open>
  A registry with a cycle: \<open>a\<close> depends on \<open>b\<close> and \<open>b\<close> on \<open>a\<close>; any other package is
  not found. Every range resolves to \<open>1.0.0\<close>.
\<close>

definition sample_fetch :: "string \<Rightarrow> string \<Rightarrow> js_error + dependency list" where
  "sample_fetch pname ver =
     (if pname = ''a'' then Inr [\<lparr>dep_name = ''b'', dep_version = ''^1.0.0''\<rparr>]
      else if pname = ''b'' then Inr [\<lparr>dep_name = ''a'', dep_version = ''^1.0.0''\<rparr>]
      else Inl (sample_error ''Package not found''))"

definition sample_resolve :: "string \<Rightarrow> string \<Rightarrow> string" where
  "sample_resolve pname versionRange = ''1.0.0''"


section \<open>Properties of the deduplication\<close>

lemma update_absent: "k \<notin> fst ` set m \<Longrightarrow> AList.update k v m = m @ [(k, v)]"
  by (induction m) auto

lemma pkg_key_fresh_entry: "pkg_key (fresh_entry p) = pkg_key p"
  by (simp add: pkg_key_def fresh_entry_def)

lemma pkg_key_absorb: "pkg_key (absorb e p) = pkg_key e"
  by (simp add: pkg_key_def absorb_def Let_def)

lemma keys_merge_step:
  "map fst (merge_step m p) =
     (if pkg_key p \<in> fst ` set m then map fst m else map fst m @ [pkg_key p])"
  by (auto simp: merge_step_def Let_def update_keys split: option.splits)

lemma map_of_merge_step:
  "map_of (merge_step m p) k =
     (if k = pkg_key p
      then Some (case map_of m k of None \<Rightarrow> fresh_entry p | Some e \<Rightarrow> absorb e p)
      else map_of m k)"
  by (auto simp: merge_step_def Let_def update_conv' split: option.splits)

lemma distinct_merge_step: "distinct (map fst m) \<Longrightarrow> distinct (map fst (merge_step m p))"
  by (auto simp: merge_step_def Let_def distinct_update split: option.splits)

lemma map_of_foldl_merge_step:
  "map_of (foldl merge_step m xs) k =
     foldl absorb_opt (map_of m k) (filter (\<lambda>p. pkg_key p = k) xs)"
  by (induction xs arbitrary: m) (auto simp: map_of_merge_step absorb_opt_def)

lemma distinct_foldl_merge_step:
  "distinct (map fst m) \<Longrightarrow> distinct (map fst (foldl merge_step m xs))"
  by (induction xs arbitrary: m) (auto simp: distinct_merge_step)

lemma keyset_merge_step: "fst ` set (merge_step m p) = insert (pkg_key p) (fst ` set m)"
  using keys_merge_step[of m p, THEN arg_cong, of set] by (auto split: if_splits)

lemma keys_foldl_merge_step:
  "fst ` set (foldl merge_step m xs) = fst ` set m \<union> pkg_key ` set xs"
  by (induction xs arbitrary: m) (simp_all add: keyset_merge_step)

lemma entry_inv_fresh: "entry_inv (fresh_entry p)"
  by (simp add: entry_inv_def fresh_entry_def)

lemma foldl_absorb_Some:
  "entry_inv e \<Longrightarrow> \<exists>r. foldl absorb_opt (Some e) ps = Some r \<and>
     name r = name e \<and> version r = version e \<and> label r = label e \<and> source r = source e \<and>
     set (sources r) = set (sources e) \<union> source ` set ps \<and> distinct (sources r) \<and>
     length (sources e) \<le> length (sources r) \<and>
     confidence r = (if 1 < length (sources r) then High else confidence e)"
proof (induction ps arbitrary: e)
  case Nil
  then show ?case by (auto simp: entry_inv_def)
next
  case (Cons p ps)
  let ?e' = "absorb e p"
  have inv': "entry_inv ?e'"
    using Cons.prems by (auto simp: entry_inv_def absorb_def Let_def)
  have fields: "name ?e' = name e" "version ?e' = version e" "label ?e' = label e"
    "source ?e' = source e" "set (sources ?e') = insert (source p) (set (sources e))"
    by (auto simp: absorb_def Let_def)
  have len: "length (sources e) \<le> length (sources ?e')"
    by (auto simp: absorb_def Let_def)
  have conf: "confidence ?e' = (if 1 < length (sources ?e') then High else confidence e)"
    by (auto simp: absorb_def Let_def)
  from Cons.IH[OF inv'] obtain r where r: "foldl absorb_opt (Some ?e') ps = Some r"
    "name r = name ?e'" "version r = version ?e'" "label r = label ?e'" "source r = source ?e'"
    "set (sources r) = set (sources ?e') \<union> source ` set ps" "distinct (sources r)"
    "length (sources ?e') \<le> length (sources r)"
    "confidence r = (if 1 < length (sources r) then High else confidence ?e')"
    by blast
  have "confidence r = (if 1 < length (sources r) then High else confidence e)"
    using r(8,9) conf len by (auto split: if_splits)
  moreover have "foldl absorb_opt (Some e) (p # ps) = Some r"
    using r(1) by (simp add: absorb_opt_def)
  moreover have "set (sources r) = set (sources e) \<union> source ` set (p # ps)"
    using r(6) fields(5) by auto
  moreover have "length (sources e) \<le> length (sources r)"
    using r(8) len by linarith
  ultimately show ?case using r(2-5,7) fields(1-4) by metis
qed

lemma foldl_absorb_None:
  "ps \<noteq> [] \<Longrightarrow> \<exists>r. foldl absorb_opt None ps = Some r \<and>
     name r = name (hd ps) \<and> version r = version (hd ps) \<and> label r = label (hd ps) \<and>
     source r = source (hd ps) \<and>
     set (sources r) = source ` set ps \<and> distinct (sources r) \<and>
     confidence r = (if 1 < length (sources r) then High else confidence (hd ps))"
proof -
  assume "ps \<noteq> []"
  then obtain p qs where ps: "ps = p # qs" by (cases ps) auto
  from foldl_absorb_Some[OF entry_inv_fresh, of p qs]
  obtain r where r: "foldl absorb_opt (Some (fresh_entry p)) qs = Some r"
    "name r = name (fresh_entry p)" "version r = version (fresh_entry p)"
    "label r = label (fresh_entry p)" "source r = source (fresh_entry p)"
    "set (sources r) = set (sources (fresh_entry p)) \<union> source ` set qs"
    "distinct (sources r)"
    "confidence r = (if 1 < length (sources r) then High else confidence (fresh_entry p))"
    by blast
  have "foldl absorb_opt None ps = Some r"
    using r(1) by (simp add: ps absorb_opt_def)
  moreover have "set (sources r) = source ` set ps"
    using r(6) by (simp add: ps fresh_entry_def)
  ultimately show ?thesis
    using r(2-5,7,8) by (simp add: ps fresh_entry_def)
qed

lemma set_update_subset: "set (AList.update k v al) \<subseteq> insert (k, v) (set al)"
  by (induction al) auto

lemma keyed_update: "keyed m \<Longrightarrow> pkg_key e = k \<Longrightarrow> keyed (AList.update k e m)"
  unfolding keyed_def using set_update_subset[of k e m] by auto

lemma keyed_merge_step: "keyed m \<Longrightarrow> keyed (merge_step m p)"
proof (cases "map_of m (pkg_key p)")
  case None
  assume "keyed m"
  then show ?thesis
    using None by (simp add: merge_step_def keyed_update pkg_key_fresh_entry)
next
  case (Some e)
  assume km: "keyed m"
  from Some have "(pkg_key p, e) \<in> set m" by (rule map_of_SomeD)
  with km have "pkg_key e = pkg_key p" by (auto simp: keyed_def)
  with km show ?thesis
    using Some by (simp add: merge_step_def keyed_update pkg_key_absorb)
qed

lemma keyed_foldl: "keyed m \<Longrightarrow> keyed (foldl merge_step m xs)"
  by (induction xs arbitrary: m) (simp_all add: keyed_merge_step)

lemma keyed_dedup: "keyed (foldl merge_step [] xs)"
  by (rule keyed_foldl) (simp add: keyed_def)

lemma map_pkg_key_dedup: "map pkg_key (deduplicatePackages xs) = map fst (foldl merge_step [] xs)"
  using keyed_dedup[of xs] by (simp add: deduplicatePackages_def keyed_def)

lemma distinct_keys_dedup: "distinct (map pkg_key (deduplicatePackages xs))"
  by (simp add: map_pkg_key_dedup distinct_foldl_merge_step)

lemma keyset_dedup: "pkg_key ` set (deduplicatePackages xs) = pkg_key ` set xs"
  using keys_foldl_merge_step[of "[]" xs] map_pkg_key_dedup[of xs, THEN arg_cong, of set]
  by simp

lemma dedup_entry:
  assumes "r \<in> set (deduplicatePackages xs)"
  defines "ps \<equiv> filter (\<lambda>p. pkg_key p = pkg_key r) xs"
  shows "ps \<noteq> [] \<and> name r = name (hd ps) \<and> version r = version (hd ps) \<and>
     label r = label (hd ps) \<and> source r = source (hd ps) \<and>
     set (sources r) = source ` set ps \<and> distinct (sources r) \<and>
     confidence r = (if 1 < length (sources r) then High else confidence (hd ps))"
proof -
  let ?m = "foldl merge_step [] xs"
  from assms(1) obtain k where kr: "(k, r) \<in> set ?m"
    by (auto simp: deduplicatePackages_def)
  then have k: "k = pkg_key r"
    using keyed_dedup[of xs] by (auto simp: keyed_def)
  have "distinct (map fst ?m)" by (simp add: distinct_foldl_merge_step)
  then have "map_of ?m (pkg_key r) = Some r"
    using kr k by simp
  then have fold: "foldl absorb_opt None ps = Some r"
    by (simp add: map_of_foldl_merge_step ps_def)
  then have ne: "ps \<noteq> []" by auto
  from foldl_absorb_None[OF ne] fold show ?thesis by auto
qed

lemma foldl_merge_step_distinct:
  "distinct (map pkg_key ys) \<Longrightarrow> pkg_key ` set ys \<inter> fst ` set m = {} \<Longrightarrow>
   foldl merge_step m ys = m @ map (\<lambda>p. (pkg_key p, fresh_entry p)) ys"
proof (induction ys arbitrary: m)
  case Nil
  then show ?case by simp
next
  case (Cons p ys)
  have absent: "pkg_key p \<notin> fst ` set m" using Cons.prems(2) by auto
  then have none: "map_of m (pkg_key p) = None"
    by (simp add: map_of_eq_None_iff)
  have step: "merge_step m p = m @ [(pkg_key p, fresh_entry p)]"
    using absent none by (simp add: merge_step_def update_absent)
  have "pkg_key ` set ys \<inter> fst ` set (merge_step m p) = {}"
    using Cons.prems by (auto simp: step)
  with Cons.IH[of "merge_step m p"] Cons.prems(1) show ?case
    by (simp add: step)
qed

lemma dedup_distinct_keys:
  "distinct (map pkg_key ys) \<Longrightarrow> deduplicatePackages ys = map fresh_entry ys"
  using foldl_merge_step_distinct[of ys "[]"] by (simp add: deduplicatePackages_def comp_def)

lemmas dedup_eval = deduplicatePackages_def merge_step_def absorb_def fresh_entry_def
  pkg_key_def sample_pkg_def Let_def

lemma dedup_content:
  "(\<lambda>r. (pkg_key r, set (sources r))) ` set (deduplicatePackages xs) =
     (\<lambda>k. (k, source ` {p \<in> set xs. pkg_key p = k})) ` pkg_key ` set xs"
proof -
  have src: "set (sources r) = source ` {p \<in> set xs. pkg_key p = pkg_key r}"
    if "r \<in> set (deduplicatePackages xs)" for r
    using dedup_entry[OF that] by simp
  have "(\<lambda>r. (pkg_key r, set (sources r))) ` set (deduplicatePackages xs) =
        (\<lambda>r. (pkg_key r, source ` {p \<in> set xs. pkg_key p = pkg_key r})) ` set (deduplicatePackages xs)"
    using src by (intro image_cong) auto
  also have "\<dots> = (\<lambda>k. (k, source ` {p \<in> set xs. pkg_key p = k})) ` pkg_key ` set (deduplicatePackages xs)"
    by (simp add: image_image)
  finally show ?thesis by (simp add: keyset_dedup)
qed

lemma length_dedup: "length (deduplicatePackages xs) = card (pkg_key ` set xs)"
  using distinct_card[OF distinct_keys_dedup[of xs]] keyset_dedup[of xs] by simp

lemma dedup_corroborated:
  "r \<in> set (deduplicatePackages xs) \<Longrightarrow> 1 < length (sources r) \<Longrightarrow> confidence r = High"
  using dedup_entry[of r xs] by simp

lemma remdups_snoc: "remdups (zs @ [k]) = filter (\<lambda>x. x \<noteq> k) (remdups zs) @ [k]"
  by (induction zs) auto

lemma first_occurrence_Cons:
  "rev (remdups (rev (k # ys))) = k # rev (remdups (rev (filter (\<lambda>x. x \<noteq> k) ys)))"
proof -
  have "rev (remdups (rev (k # ys))) = k # rev (filter (\<lambda>x. x \<noteq> k) (remdups (rev ys)))"
    by (simp add: remdups_snoc)
  also have "filter (\<lambda>x. x \<noteq> k) (remdups (rev ys)) = remdups (rev (filter (\<lambda>x. x \<noteq> k) ys))"
    by (simp add: remdups_filter rev_filter)
  finally show ?thesis .
qed

lemma keys_foldl_first_occurrence:
  "map fst (foldl merge_step m xs) =
     map fst m @ rev (remdups (rev (filter (\<lambda>k. k \<notin> fst ` set m) (map pkg_key xs))))"
proof (induction xs arbitrary: m)
  case Nil
  then show ?case by simp
next
  case (Cons p xs)
  let ?ks = "map pkg_key xs"
  show ?case
  proof (cases "pkg_key p \<in> fst ` set m")
    case True
    have "map fst (foldl merge_step m (p # xs)) =
        map fst (merge_step m p) @
          rev (remdups (rev (filter (\<lambda>k. k \<notin> fst ` set (merge_step m p)) ?ks)))"
      using Cons.IH[of "merge_step m p"] by simp
    also have "map fst (merge_step m p) = map fst m"
      using True by (simp add: keys_merge_step)
    also have "fst ` set (merge_step m p) = fst ` set m"
      using True by (simp add: keyset_merge_step insert_absorb)
    also have "filter (\<lambda>k. k \<notin> fst ` set m) ?ks =
        filter (\<lambda>k. k \<notin> fst ` set m) (map pkg_key (p # xs))"
      using True by simp
    finally show ?thesis .
  next
    case False
    have f: "filter (\<lambda>k. k \<notin> insert (pkg_key p) (fst ` set m)) ?ks =
        filter (\<lambda>x. x \<noteq> pkg_key p) (filter (\<lambda>k. k \<notin> fst ` set m) ?ks)"
      by (rule filter_cong[OF refl, THEN trans, of _ _ "\<lambda>k. k \<notin> fst ` set m \<and> k \<noteq> pkg_key p"])
         (auto)
    have "map fst (foldl merge_step m (p # xs)) =
        map fst (merge_step m p) @
          rev (remdups (rev (filter (\<lambda>k. k \<notin> fst ` set (merge_step m p)) ?ks)))"
      using Cons.IH[of "merge_step m p"] by simp
    also have "map fst (merge_step m p) = map fst m @ [pkg_key p]"
      using False by (simp add: keys_merge_step)
    also have "fst ` set (merge_step m p) = insert (pkg_key p) (fst ` set m)"
      by (rule keyset_merge_step)
    also have "(map fst m @ [pkg_key p]) @
          rev (remdups (rev (filter (\<lambda>k. k \<notin> insert (pkg_key p) (fst ` set m)) ?ks))) =
        map fst m @ rev (remdups (rev (pkg_key p # filter (\<lambda>k. k \<notin> fst ` set m) ?ks)))"
      unfolding f first_occurrence_Cons by simp
    also have "pkg_key p # filter (\<lambda>k. k \<notin> fst ` set m) ?ks =
        filter (\<lambda>k. k \<notin> fst ` set m) (map pkg_key (p # xs))"
      using False by simp
    finally show ?thesis .
  qed
qed

lemma keys_dedup_first_occurrence:
  "map pkg_key (deduplicatePackages xs) = rev (remdups (rev (map pkg_key xs)))"
  using keys_foldl_first_occurrence[of "[]" xs] by (simp add: map_pkg_key_dedup)

text \<open>
  Claim C3, as the code has it. The output has exactly one record per key of the
  input, in the order in which the keys first occur. The record kept for a key is the
  first input record with that key (its name, version, label and source); its
  \<open>sources\<close> are the distinct sources of all input records with that key. Its
  confidence is \<open>"high"\<close> when these are two or more, and that of the first record
  otherwise. So the confidence is never lowered for a record that entered with
  \<open>"low"\<close>, \<open>"medium"\<close> or \<open>"high"\<close>. The statement holds for every input list, hence
  after every step of the loop.
\<close>

theorem dedup_confidence:
  "map pkg_key (deduplicatePackages xs) = rev (remdups (rev (map pkg_key xs))) \<and>
   distinct (map pkg_key (deduplicatePackages xs)) \<and>
   pkg_key ` set (deduplicatePackages xs) = pkg_key ` set xs \<and>
   (\<forall>r \<in> set (deduplicatePackages xs).
      filter (\<lambda>p. pkg_key p = pkg_key r) xs \<noteq> [] \<and>
      name r = name (hd (filter (\<lambda>p. pkg_key p = pkg_key r) xs)) \<and>
      version r = version (hd (filter (\<lambda>p. pkg_key p = pkg_key r) xs)) \<and>
      label r = label (hd (filter (\<lambda>p. pkg_key p = pkg_key r) xs)) \<and>
      source r = source (hd (filter (\<lambda>p. pkg_key p = pkg_key r) xs)) \<and>
      set (sources r) = source ` set (filter (\<lambda>p. pkg_key p = pkg_key r) xs) \<and>
      distinct (sources r) \<and>
      (2 \<le> card (source ` set (filter (\<lambda>p. pkg_key p = pkg_key r) xs)) \<longrightarrow>
         confidence r = High) \<and>
      (card (source ` set (filter (\<lambda>p. pkg_key p = pkg_key r) xs)) < 2 \<longrightarrow>
         confidence r = confidence (hd (filter (\<lambda>p. pkg_key p = pkg_key r) xs))) \<and>
      (confidence (hd (filter (\<lambda>p. pkg_key p = pkg_key r) xs)) \<noteq> VeryHigh \<longrightarrow>
         conf_rank (confidence (hd (filter (\<lambda>p. pkg_key p = pkg_key r) xs)))
           \<le> conf_rank (confidence r)))"
proof (intro conjI ballI)
  show "map pkg_key (deduplicatePackages xs) = rev (remdups (rev (map pkg_key xs)))"
    by (rule keys_dedup_first_occurrence)
  show "distinct (map pkg_key (deduplicatePackages xs))"
    by (rule distinct_keys_dedup)
  show "pkg_key ` set (deduplicatePackages xs) = pkg_key ` set xs"
    by (rule keyset_dedup)
next
  fix r
  assume r: "r \<in> set (deduplicatePackages xs)"
  define ps where "ps = filter (\<lambda>p. pkg_key p = pkg_key r) xs"
  from dedup_entry[OF r] have e: "ps \<noteq> []" "name r = name (hd ps)"
    "version r = version (hd ps)" "label r = label (hd ps)" "source r = source (hd ps)"
    "set (sources r) = source ` set ps" "distinct (sources r)"
    "confidence r = (if 1 < length (sources r) then High else confidence (hd ps))"
    by (simp_all add: ps_def)
  have len: "length (sources r) = card (source ` set ps)"
    using e(6,7) distinct_card[of "sources r"] by simp
  have rank: "confidence (hd ps) \<noteq> VeryHigh \<Longrightarrow> conf_rank (confidence (hd ps)) \<le> conf_rank High"
    by (cases "confidence (hd ps)") simp_all
  show "filter (\<lambda>p. pkg_key p = pkg_key r) xs \<noteq> []" using e(1) by (simp add: ps_def)
  show "name r = name (hd (filter (\<lambda>p. pkg_key p = pkg_key r) xs))" using e(2) by (simp add: ps_def)
  show "version r = version (hd (filter (\<lambda>p. pkg_key p = pkg_key r) xs))" using e(3) by (simp add: ps_def)
  show "label r = label (hd (filter (\<lambda>p. pkg_key p = pkg_key r) xs))" using e(4) by (simp add: ps_def)
  show "source r = source (hd (filter (\<lambda>p. pkg_key p = pkg_key r) xs))" using e(5) by (simp add: ps_def)
  show "set (sources r) = source ` set (filter (\<lambda>p. pkg_key p = pkg_key r) xs)"
    using e(6) by (simp add: ps_def)
  show "distinct (sources r)" by (rule e(7))
  show "2 \<le> card (source ` set (filter (\<lambda>p. pkg_key p = pkg_key r) xs)) \<longrightarrow> confidence r = High"
    using e(8) len by (simp add: ps_def)
  show "card (source ` set (filter (\<lambda>p. pkg_key p = pkg_key r) xs)) < 2 \<longrightarrow>
         confidence r = confidence (hd (filter (\<lambda>p. pkg_key p = pkg_key r) xs))"
    using e(8) len by (simp add: ps_def)
  show "confidence (hd (filter (\<lambda>p. pkg_key p = pkg_key r) xs)) \<noteq> VeryHigh \<longrightarrow>
         conf_rank (confidence (hd (filter (\<lambda>p. pkg_key p = pkg_key r) xs)))
           \<le> conf_rank (confidence r)"
    using e(8) rank by (auto simp: ps_def)
qed

theorem dedup_confidence_witness:
  "deduplicatePackages
     [sample_pkg ''github-advisory'' Medium,
      (sample_pkg ''osv'' Medium)\<lparr>name := ''left-pad''\<rparr>,
      sample_pkg ''osv'' Medium] =
   [\<lparr>name = ''evil-pkg'', version = ''1.0.0'', label = ''malicious'', source = ''github-advisory'',
     confidence = High, sources = [''github-advisory'', ''osv'']\<rparr>,
    \<lparr>name = ''left-pad'', version = ''1.0.0'', label = ''malicious'', source = ''osv'',
     confidence = Medium, sources = [''osv'']\<rparr>] \<and>
   2 \<le> card (source ` set [sample_pkg ''github-advisory'' Medium, sample_pkg ''osv'' Medium]) \<and>
   conf_rank Medium \<le> conf_rank High"
  using dedup_confidence[of "[sample_pkg ''github-advisory'' Medium,
      (sample_pkg ''osv'' Medium)\<lparr>name := ''left-pad''\<rparr>, sample_pkg ''osv'' Medium]"]
  by (simp add: dedup_eval)

text \<open>
  A record that enters with \<open>"very-high"\<close> and is reported by a second source leaves
  with \<open>"high"\<close>: the assignment \<open>existing.confidence = "high"\<close> is unconditional.
\<close>

theorem dedup_lowers_very_high:
  "\<not> conf_rank (confidence (sample_pkg ''manually-curated'' VeryHigh))
       \<le> conf_rank (confidence (hd (deduplicatePackages
            [sample_pkg ''manually-curated'' VeryHigh, sample_pkg ''osv'' Medium])))"
  by (simp add: dedup_eval)

text \<open>
  Claim C7, as the code has it. Merging the output of a merge keeps the records, their
  order and their confidence, and resets the \<open>sources\<close> of each record to the single
  \<open>source\<close> it carries: \<open>{ ...pkg, sources: [pkg.source] }\<close> replaces the accumulated list.
\<close>

theorem dedup_remerge:
  "deduplicatePackages (deduplicatePackages xs) =
     map (\<lambda>r. r\<lparr>sources := [source r]\<rparr>) (deduplicatePackages xs)"
  by (simp add: dedup_distinct_keys[OF distinct_keys_dedup] fresh_entry_def)

text \<open>The second merge loses the source \<open>osv\<close> of a record reported by two sources.\<close>

theorem dedup_not_idempotent:
  "deduplicatePackages (deduplicatePackages [sample_pkg ''github-advisory'' Medium, sample_pkg ''osv'' Medium])
     \<noteq> deduplicatePackages [sample_pkg ''github-advisory'' Medium, sample_pkg ''osv'' Medium]"
  by (simp add: dedup_eval)

text \<open>
  Claim C8, as the code has it. Two input sequences with the same records yield the
  same keys, the same number of records and, per key, the same set of sources; a record
  reported by two or more sources has confidence \<open>"high"\<close> in both. The other fields of
  a record are those of the first input record with its key.
\<close>

theorem dedup_permutation:
  assumes "mset xs = mset ys"
  shows "(\<lambda>r. (pkg_key r, set (sources r))) ` set (deduplicatePackages xs) =
         (\<lambda>r. (pkg_key r, set (sources r))) ` set (deduplicatePackages ys) \<and>
         length (deduplicatePackages xs) = length (deduplicatePackages ys) \<and>
         (\<forall>r \<in> set (deduplicatePackages xs). \<forall>r' \<in> set (deduplicatePackages ys).
            pkg_key r = pkg_key r' \<and> 1 < length (sources r) \<longrightarrow>
            confidence r = High \<and> confidence r' = High) \<and>
         (\<forall>r \<in> set (deduplicatePackages xs).
            name r = name (hd (filter (\<lambda>p. pkg_key p = pkg_key r) xs)) \<and>
            version r = version (hd (filter (\<lambda>p. pkg_key p = pkg_key r) xs)) \<and>
            label r = label (hd (filter (\<lambda>p. pkg_key p = pkg_key r) xs)) \<and>
            source r = source (hd (filter (\<lambda>p. pkg_key p = pkg_key r) xs)) \<and>
            (length (sources r) \<le> 1 \<longrightarrow>
               confidence r = confidence (hd (filter (\<lambda>p. pkg_key p = pkg_key r) xs))))"
proof -
  have s: "set xs = set ys" using assms by (rule mset_eq_setD)
  have c: "(\<lambda>r. (pkg_key r, set (sources r))) ` set (deduplicatePackages xs) =
         (\<lambda>r. (pkg_key r, set (sources r))) ` set (deduplicatePackages ys)"
    by (simp add: dedup_content s)
  have l: "length (deduplicatePackages xs) = length (deduplicatePackages ys)"
    by (simp add: length_dedup s)
  have h: "confidence r = High \<and> confidence r' = High"
    if r: "r \<in> set (deduplicatePackages xs)" and r': "r' \<in> set (deduplicatePackages ys)"
      and k: "pkg_key r = pkg_key r'" and n: "1 < length (sources r)" for r r'
  proof -
    have "set (sources r) = set (sources r')"
      using dedup_entry[OF r] dedup_entry[OF r'] k s by simp
    moreover have "distinct (sources r)" "distinct (sources r')"
      using dedup_entry[OF r] dedup_entry[OF r'] by simp_all
    ultimately have "length (sources r) = length (sources r')"
      by (metis distinct_card)
    then show ?thesis
      using dedup_corroborated[OF r n] dedup_corroborated[OF r'] n by simp
  qed
  have f: "name r = name (hd (filter (\<lambda>p. pkg_key p = pkg_key r) xs)) \<and>
            version r = version (hd (filter (\<lambda>p. pkg_key p = pkg_key r) xs)) \<and>
            label r = label (hd (filter (\<lambda>p. pkg_key p = pkg_key r) xs)) \<and>
            source r = source (hd (filter (\<lambda>p. pkg_key p = pkg_key r) xs)) \<and>
            (length (sources r) \<le> 1 \<longrightarrow>
               confidence r = confidence (hd (filter (\<lambda>p. pkg_key p = pkg_key r) xs)))"
    if r: "r \<in> set (deduplicatePackages xs)" for r
    using dedup_entry[OF r] by simp
  show ?thesis using c l h f by blast
qed

theorem dedup_permutation_witness:
  "mset [sample_pkg ''github-advisory'' Medium, sample_pkg ''osv'' High]
     = mset [sample_pkg ''osv'' High, sample_pkg ''github-advisory'' Medium] \<and>
   (\<lambda>r. (pkg_key r, set (sources r))) ` set (deduplicatePackages
       [sample_pkg ''github-advisory'' Medium, sample_pkg ''osv'' High]) =
   (\<lambda>r. (pkg_key r, set (sources r))) ` set (deduplicatePackages
       [sample_pkg ''osv'' High, sample_pkg ''github-advisory'' Medium])"
proof -
  have h: "mset [sample_pkg ''github-advisory'' Medium, sample_pkg ''osv'' High]
     = mset [sample_pkg ''osv'' High, sample_pkg ''github-advisory'' Medium]"
    by (simp add: add.commute)
  from dedup_permutation[OF h] show ?thesis using h by blast
qed

text \<open>
  Two reports of one package by the same source with different confidence: the merged
  record has the confidence of the report that comes first.
\<close>

theorem dedup_order_sensitive:
  "mset [sample_pkg ''osv'' Medium, sample_pkg ''osv'' High]
     = mset [sample_pkg ''osv'' High, sample_pkg ''osv'' Medium] \<and>
   map confidence (deduplicatePackages [sample_pkg ''osv'' Medium, sample_pkg ''osv'' High]) = [Medium] \<and>
   map confidence (deduplicatePackages [sample_pkg ''osv'' High, sample_pkg ''osv'' Medium]) = [High] \<and>
   set (deduplicatePackages [sample_pkg ''osv'' Medium, sample_pkg ''osv'' High])
     \<noteq> set (deduplicatePackages [sample_pkg ''osv'' High, sample_pkg ''osv'' Medium])"
  by (simp add: dedup_eval add.commute)


section \<open>Properties of the batch collection\<close>

lemma successes_Nil: "successes collect [] = []"
  by (simp add: successes_def)

lemma failures_Nil: "failures collect [] = []"
  by (simp add: failures_def)

lemma successes_Cons:
  "successes collect (x # xs) =
     (case collect x of Inr v \<Rightarrow> v # successes collect xs | Inl e \<Rightarrow> successes collect xs)"
  by (simp add: successes_def split: sum.splits)

lemma failures_Cons:
  "failures collect (x # xs) =
     (case collect x of Inr v \<Rightarrow> failures collect xs
      | Inl e \<Rightarrow> (x, message e) # failures collect xs)"
  by (simp add: failures_def split: sum.splits)

lemma successes_append: "successes collect (xs @ ys) = successes collect xs @ successes collect ys"
  by (induction xs) (simp_all add: successes_Nil successes_Cons split: sum.splits)

lemma failures_append: "failures collect (xs @ ys) = failures collect xs @ failures collect ys"
  by (induction xs) (simp_all add: failures_Nil failures_Cons split: sum.splits)

lemma length_successes_failures:
  "length (successes collect xs) + length (failures collect xs) = length xs"
  by (induction xs) (simp_all add: successes_Nil failures_Nil successes_Cons failures_Cons split: sum.splits)

lemma foldl_record_settled:
  "length pre = n \<Longrightarrow>
   foldl (record_settled (pre @ ys)) (rs, es) (enumerate n (map collect ys)) =
     (rs @ successes collect ys, es @ failures collect ys)"
proof (induction ys arbitrary: pre n rs es)
  case Nil
  then show ?case by (simp add: successes_Nil failures_Nil)
next
  case (Cons y ys)
  have nth: "(pre @ y # ys) ! n = y" unfolding Cons.prems[symmetric] by simp
  have len: "length (pre @ [y]) = Suc n" using Cons.prems by simp
  show ?case
  proof (cases "collect y")
    case (Inl e)
    then show ?thesis
      using Cons.IH[OF len, of rs "es @ [(y, message e)]"] nth
      by (simp add: successes_Cons failures_Cons)
  next
    case (Inr v)
    then show ?thesis
      using Cons.IH[OF len, of "rs @ [v]" es]
      by (simp add: successes_Cons failures_Cons)
  qed
qed

lemma settle_batch:
  "foldl (record_settled batch) (rs, es) (enumerate 0 (map collect batch)) =
     (rs @ successes collect batch, es @ failures collect batch)"
  using foldl_record_settled[of "[]" 0 batch rs es collect] by simp

lemma batch_loop_eq:
  assumes "0 < concurrency"
  shows "batch_loop collect concurrency packageList i (rs, es) =
     Some (rs @ successes collect (drop i packageList), es @ failures collect (drop i packageList))"
proof (induction "length packageList - i" arbitrary: i rs es rule: less_induct)
  case less
  show ?case
  proof (cases "i < length packageList")
    case False
    then show ?thesis
      by (subst batch_loop.simps) (simp add: successes_Nil failures_Nil)
  next
    case True
    let ?batch = "slice packageList i (i + concurrency)"
    have batch: "?batch = take concurrency (drop i packageList)"
      by (simp add: slice_def)
    have rest: "drop (i + concurrency) packageList = drop concurrency (drop i packageList)"
      by (simp add: add.commute)
    have smaller: "length packageList - (i + concurrency) < length packageList - i"
      using True assms by arith
    have decomp: "drop i packageList = ?batch @ drop (i + concurrency) packageList"
      unfolding batch rest by (rule append_take_drop_id[symmetric])
    have split_s: "successes collect (drop i packageList) =
        successes collect ?batch @ successes collect (drop (i + concurrency) packageList)"
      using arg_cong[OF decomp, of "successes collect"] by (simp only: successes_append)
    have split_f: "failures collect (drop i packageList) =
        failures collect ?batch @ failures collect (drop (i + concurrency) packageList)"
      using arg_cong[OF decomp, of "failures collect"] by (simp only: failures_append)
    have "batch_loop collect concurrency packageList i (rs, es) =
        batch_loop collect concurrency packageList (i + concurrency)
          (rs @ successes collect ?batch, es @ failures collect ?batch)"
      using True by (subst batch_loop.simps) (simp add: Let_def settle_batch)
    also have "\<dots> = Some ((rs @ successes collect ?batch) @
          successes collect (drop (i + concurrency) packageList),
        (es @ failures collect ?batch) @ failures collect (drop (i + concurrency) packageList))"
      by (rule less[OF smaller])
    finally show ?thesis by (simp add: split_s split_f)
  qed
qed

lemma batchCollectPackages_eq:
  "0 < concurrency \<Longrightarrow>
   batchCollectPackages collect packageList concurrency =
     Some \<lparr>results = successes collect packageList, errors = failures collect packageList,
           summary = \<lparr>total = length packageList,
                       successful = length (successes collect packageList),
                       failed = length (failures collect packageList)\<rparr>\<rparr>"
  by (simp add: batchCollectPackages_def batch_loop_eq)

text \<open>
  Claim C2. For a positive concurrency the batch returns: its \<open>results\<close> are the
  values of the items whose collection is fulfilled and its \<open>errors\<close> pair each item
  whose collection is rejected with the message, both in the order of the input. The
  outcome recorded for an item is that of its own collection, whatever the others do,
  and the two lists account for every item once.
\<close>

theorem batch_settles_every_item:
  assumes "0 < concurrency"
  shows "batchCollectPackages collect packageList concurrency =
     Some \<lparr>results = successes collect packageList, errors = failures collect packageList,
           summary = \<lparr>total = length packageList,
                       successful = length (successes collect packageList),
                       failed = length (failures collect packageList)\<rparr>\<rparr> \<and>
     length (successes collect packageList) + length (failures collect packageList)
       = length packageList"
  using assms by (simp add: batchCollectPackages_eq length_successes_failures)

theorem batch_settles_every_item_witness:
  "(0::nat) < 2 \<and>
   batchCollectPackages sample_collect [''a'', ''b'', ''c'', ''d'', ''e''] 2 =
     Some \<lparr>results = [''a'', ''b'', ''d'', ''e''],
           errors = [(''c'', ''Package c not found'')],
           summary = \<lparr>total = 5, successful = 4, failed = 1\<rparr>\<rparr>"
  using batch_settles_every_item[of 2 sample_collect "[''a'', ''b'', ''c'', ''d'', ''e'']"]
  by (simp add: successes_Cons failures_Cons successes_Nil failures_Nil sample_collect_def
      sample_error_def)

text \<open>
  Claim C6. The batch returns the same result with any positive concurrency as with
  concurrency 1.
\<close>

theorem batch_concurrency_irrelevant:
  assumes "0 < concurrency"
  shows "batchCollectPackages collect packageList concurrency =
           batchCollectPackages collect packageList 1 \<and>
         batchCollectPackages collect packageList 1 \<noteq> None"
  using assms by (simp add: batchCollectPackages_eq)

theorem batch_concurrency_irrelevant_witness:
  "(0::nat) < 2 \<and>
   batchCollectPackages sample_collect [''a'', ''c''] 2 =
     batchCollectPackages sample_collect [''a'', ''c''] 1 \<and>
   batchCollectPackages sample_collect [''a'', ''c''] 1 \<noteq> None"
  using batch_concurrency_irrelevant[of 2 sample_collect "[''a'', ''c'']"]
  by simp


section \<open>Properties of the single-package collection\<close>

lemma try_aspect_calls: "calls (try_aspect key outcome st) = calls st @ [key]"
  by (simp add: try_aspect_def)

lemma try_aspect_cdata:
  "cdata (try_aspect key outcome st) = (cdata st)(key \<mapsto> recorded outcome)"
  by (simp add: try_aspect_def recorded_def)

lemma collect_calls:
  assumes "fetchFromNpmRegistry svc pname ver = Inr md"
  shows "fst (collectPackageData svc pname ver opts) =
     ''metadata'' # filter (\<lambda>k. k \<in> enabled_aspects opts \<and> aspect_call svc pname md k \<noteq> None) aspect_keys"
  using assms
  by (cases "repository md"; cases "tarball_of md")
     (simp_all add: collectPackageData_def Let_def try_aspect_calls aspect_keys_def
      enabled_aspects_def aspect_call_def)

lemma collect_data:
  assumes "fetchFromNpmRegistry svc pname ver = Inr md"
  shows "snd (collectPackageData svc pname ver opts) =
     Inr \<lparr>packageName = pname, requested_version = ver,
          data = (\<lambda>k. if k = ''metadata'' then Some (Metadata md)
                      else if k \<in> enabled_aspects opts
                        then map_option recorded (aspect_call svc pname md k)
                      else None)\<rparr>"
proof -
  have "(case snd (collectPackageData svc pname ver opts) of Inl e \<Rightarrow> Map.empty | Inr res \<Rightarrow> data res) k
      = (if k = ''metadata'' then Some (Metadata md)
                      else if k \<in> enabled_aspects opts
                        then map_option recorded (aspect_call svc pname md k)
                      else None)" for k
    using assms
    by (cases "repository md"; cases "tarball_of md")
       (simp_all add: collectPackageData_def Let_def try_aspect_cdata
         enabled_aspects_def aspect_call_def)
  then have "(case snd (collectPackageData svc pname ver opts) of Inl e \<Rightarrow> Map.empty | Inr res \<Rightarrow> data res)
      = (\<lambda>k. if k = ''metadata'' then Some (Metadata md)
                      else if k \<in> enabled_aspects opts
                        then map_option recorded (aspect_call svc pname md k)
                      else None)" by (rule ext)
  then show ?thesis using assms
    by (simp add: collectPackageData_def Let_def)
qed

text \<open>
  Claim C1, as the code has it. When the metadata fetch raises, the collection raises
  the same error and returns no results. When it succeeds, the calls made are the
  metadata fetch followed, in the order of the code, by the call of every aspect that
  is enabled and let through by its guard (GitHub data only when the metadata name a
  repository, static analysis only when they give a tarball URL for the resolved
  version); the data map holds the metadata and, for each of these aspects, the payload
  of its call or the error descriptor of its failure, and no other key. The failure of
  one aspect changes neither the calls made for the others nor what is stored for them.
\<close>

theorem collect_isolates_aspects:
  "(fetchFromNpmRegistry svc pname ver = Inl err \<longrightarrow>
      snd (collectPackageData svc pname ver opts) = Inl err) \<and>
   (fetchFromNpmRegistry svc pname ver = Inr md \<longrightarrow>
      fst (collectPackageData svc pname ver opts) =
        ''metadata'' # filter (\<lambda>k. k \<in> enabled_aspects opts \<and> aspect_call svc pname md k \<noteq> None)
                         aspect_keys \<and>
      snd (collectPackageData svc pname ver opts) =
        Inr \<lparr>packageName = pname, requested_version = ver,
             data = (\<lambda>k. if k = ''metadata'' then Some (Metadata md)
                         else if k \<in> enabled_aspects opts
                           then map_option recorded (aspect_call svc pname md k)
                         else None)\<rparr>)"
  using collect_calls[of svc pname ver md opts] collect_data[of svc pname ver md opts]
  by (simp add: collectPackageData_def)

lemmas sample_collect_eval = sample_services_def sample_metadata_def sample_options_def
  sample_error_def enabled_aspects_def aspect_call_def aspect_keys_def recorded_def tarball_of_def

theorem collect_isolates_aspects_witness:
  "fetchFromNpmRegistry sample_services ''left-pad'' ''1.3.0'' = Inr sample_metadata \<and>
   fst (collectPackageData sample_services ''left-pad'' ''1.3.0'' sample_options) =
     [''metadata'', ''dependencies'', ''vulnerabilities''] \<and>
   (case snd (collectPackageData sample_services ''left-pad'' ''1.3.0'' sample_options) of
      Inl e \<Rightarrow> False
    | Inr res \<Rightarrow>
        data res ''dependencies'' = Some (ErrorDescriptor ''Unexpected token < in JSON'') \<and>
        data res ''vulnerabilities'' = Some (Payload ''no known vulnerabilities'') \<and>
        data res ''github'' = None \<and> data res ''staticAnalysis'' = None)"
proof -
  have h: "fetchFromNpmRegistry sample_services ''left-pad'' ''1.3.0'' = Inr sample_metadata"
    by (simp add: sample_services_def)
  from collect_isolates_aspects[of sample_services "''left-pad''" "''1.3.0''" "sample_error []"
      sample_options sample_metadata] h
  have "fst (collectPackageData sample_services ''left-pad'' ''1.3.0'' sample_options) =
        ''metadata'' # filter (\<lambda>k. k \<in> enabled_aspects sample_options \<and>
           aspect_call sample_services ''left-pad'' sample_metadata k \<noteq> None) aspect_keys"
    and "snd (collectPackageData sample_services ''left-pad'' ''1.3.0'' sample_options) =
        Inr \<lparr>packageName = ''left-pad'', requested_version = ''1.3.0'',
             data = (\<lambda>k. if k = ''metadata'' then Some (Metadata sample_metadata)
                         else if k \<in> enabled_aspects sample_options
                           then map_option recorded
                                  (aspect_call sample_services ''left-pad'' sample_metadata k)
                         else None)\<rparr>"
    by simp_all
  then show ?thesis using h by (simp add: sample_collect_eval)
qed

text \<open>
  With the default options GitHub data are enabled, yet for metadata without a
  repository the GitHub call is not made and no \<open>github\<close> key is recorded, while the
  failure of the dependencies is caught and recorded.
\<close>

theorem collect_skips_enabled_github:
  "fetchFromNpmRegistry sample_services ''left-pad'' ''1.3.0'' = Inr sample_metadata \<and>
   ''github'' \<in> enabled_aspects default_options \<and>
   ''github'' \<notin> set (fst (collectPackageData sample_services ''left-pad'' ''1.3.0'' default_options)) \<and>
   (case snd (collectPackageData sample_services ''left-pad'' ''1.3.0'' default_options) of
      Inl e \<Rightarrow> False
    | Inr res \<Rightarrow>
        data res ''dependencies'' = Some (ErrorDescriptor ''Unexpected token < in JSON'') \<and>
        data res ''github'' = None)"
  by (simp add: collectPackageData_def Let_def try_aspect_def default_options_def
      sample_collect_eval)


section \<open>Properties of the retry executor\<close>

lemma retry_loop_flaky:
  assumes "\<forall>e \<in> set errs. shouldRetry opts e \<and> \<not> lacks_headers e"
    and "length errs < maxRetries opts"
  shows "n \<le> length errs \<Longrightarrow>
     retry_loop rt (flaky errs v) opts (n + 1) lastError n ds =
       (Inr v, length errs + 1,
        ds @ map (\<lambda>j. finalDelay rt opts (j + 1) (errs ! j)) [n..<length errs])"
proof (induction "length errs - n" arbitrary: n lastError ds)
  case 0
  then have n: "n = length errs" by simp
  show ?case
    using assms(2) by (subst retry_loop.simps) (simp add: n flaky_def)
next
  case (Suc k)
  then have lt: "n < length errs" and k: "k = length errs - (n + 1)" by simp_all
  have retry: "shouldRetry opts (errs ! n)" "\<not> lacks_headers (errs ! n)"
    using assms(1) lt by simp_all
  have more: "\<not> maxRetries opts \<le> n + 1" using assms(2) lt by simp
  have "retry_loop rt (flaky errs v) opts (n + 1) lastError n ds =
      retry_loop rt (flaky errs v) opts (n + 1 + 1) (Some (errs ! n)) (n + 1)
        (ds @ [finalDelay rt opts (n + 1) (errs ! n)])"
    using lt retry more assms(2) by (subst retry_loop.simps) (simp add: flaky_def)
  also have "\<dots> = (Inr v, length errs + 1,
      (ds @ [finalDelay rt opts (n + 1) (errs ! n)]) @
        map (\<lambda>j. finalDelay rt opts (j + 1) (errs ! j)) [n + 1..<length errs])"
    using Suc.hyps(1)[OF k] lt by simp
  also have "[n..<length errs] = n # [n + 1..<length errs]"
    using lt by (simp add: upt_conv_Cons)
  then have "(ds @ [finalDelay rt opts (n + 1) (errs ! n)]) @
        map (\<lambda>j. finalDelay rt opts (j + 1) (errs ! j)) [n + 1..<length errs] =
      ds @ map (\<lambda>j. finalDelay rt opts (j + 1) (errs ! j)) [n..<length errs]"
    by simp
  finally show ?case .
qed

lemma backoff_mono:
  "0 \<le> b \<Longrightarrow> i \<le> j \<Longrightarrow> min (b * 2 ^ i) m \<le> min (b * 2 ^ j) (m :: int)"
proof -
  assume b: "0 \<le> b" and ij: "i \<le> j"
  have "(2::int) ^ i \<le> 2 ^ j" using ij by (simp add: power_increasing)
  then have "b * 2 ^ i \<le> b * 2 ^ j"
    using b by (rule mult_left_mono)
  then show ?thesis by (simp add: min_le_iff_disj)
qed

lemma backoff_sorted:
  assumes "0 \<le> b"
  shows "sorted (map (\<lambda>j. min (b * 2 ^ j) (m :: int)) [0..<k])"
proof -
  have "sorted_wrt (\<lambda>i j. min (b * 2 ^ i) m \<le> min (b * 2 ^ j) m) [0..<k]"
  proof (rule sorted_wrt_mono_rel[of _ "(<)"])
    fix i j :: nat
    assume "i < j"
    then have "i \<le> j" by simp
    then show "min (b * 2 ^ i) m \<le> min (b * 2 ^ j) m"
      by (rule backoff_mono[OF assms])
  next
    show "sorted_wrt (<) [0..<k]" by simp
  qed
  then show ?thesis by (simp add: sorted_map)
qed

text \<open>The capped exponential delay as a double, for a base delay that is not negative.\<close>

lemma capped_delay:
  assumes "0 \<le> b" and "b = 0 \<longrightarrow> j < 1024" and "m < 2 ^ 1024"
  shows "math_min (times_pow2 b (pow2 j)) m = Num (min (b * 2 ^ j) m)"
proof (cases "j < 1024")
  case True
  show ?thesis
  proof (cases "b * 2 ^ j < 2 ^ 1024")
    case True
    have "0 \<le> b * 2 ^ j" using assms(1) by simp
    then have "\<bar>b * 2 ^ j\<bar> < 2 ^ 1024" using True by simp
    then show ?thesis using \<open>j < 1024\<close> by (simp add: pow2_def)
  next
    case False
    then have big: "2 ^ 1024 \<le> b * 2 ^ j" by simp
    have "(0::int) < 2 ^ 1024" by simp
    with big have "\<not> \<bar>b * 2 ^ j\<bar> < 2 ^ 1024" "0 < b * 2 ^ j" by linarith+
    moreover have "min (b * 2 ^ j) m = m" using big assms(3) by linarith
    ultimately show ?thesis using \<open>j < 1024\<close> by (simp add: pow2_def)
  qed
next
  case False
  then have pos: "0 < b" using assms(1,2) by auto
  have "(2::int) ^ 1024 \<le> 2 ^ j" using False by (intro power_increasing) simp_all
  moreover have "(2::int) ^ j \<le> b * 2 ^ j" using pos by simp
  ultimately have "min (b * 2 ^ j) m = m" using assms(3) by linarith
  then show ?thesis using False pos by (simp add: pow2_def)
qed

lemma finalDelay_hinted:
  "retryAfter e = Some s \<Longrightarrow> s \<noteq> [] \<Longrightarrow> finalDelay rt opts attempt e = retryAfterMs rt s"
  by (simp add: finalDelay_def)

lemma finalDelay_unhinted:
  "\<not> hinted e \<Longrightarrow>
   finalDelay rt opts (Suc j) e = math_min (times_pow2 (baseDelay opts) (pow2 j)) (maxDelay opts)"
  by (auto simp: finalDelay_def hinted_def split: option.splits)

lemma delays_unhinted:
  assumes "\<forall>e \<in> set errs. \<not> hinted e" and "0 \<le> baseDelay opts"
    and "baseDelay opts = 0 \<longrightarrow> length errs \<le> 1024" and "maxDelay opts < 2 ^ 1024"
  shows "map (\<lambda>j. finalDelay rt opts (j + 1) (errs ! j)) [0..<length errs] =
     map (\<lambda>j. Num (min (baseDelay opts * 2 ^ j) (maxDelay opts))) [0..<length errs]"
proof (rule map_cong[OF refl])
  fix j
  assume "j \<in> set [0..<length errs]"
  then have j: "j < length errs" by simp
  then have "\<not> hinted (errs ! j)" using assms(1) by simp
  moreover have "baseDelay opts = 0 \<longrightarrow> j < 1024" using assms(3) j by auto
  ultimately show "finalDelay rt opts (j + 1) (errs ! j) =
      Num (min (baseDelay opts * 2 ^ j) (maxDelay opts))"
    using capped_delay[OF assms(2) _ assms(4), of j] by (simp add: finalDelay_unhinted)
qed

text \<open>
  Claim C4, as the code has it. A callable that fails with \<open>k\<close> retryable errors,
  \<open>k < maxRetries\<close>, each without a response or with a response that has headers, and
  then succeeds: the executor returns the success value after \<open>k + 1\<close> calls, that is
  \<open>k\<close> retries, and sleeps \<open>k\<close> times. The delay after the \<open>j\<close>-th failure is the value of
  \<open>parseInt(retryAfter) * 1000\<close> when the error has a non-empty Retry-After header. When
  no error has such a header, \<open>baseDelay\<close> is not negative (and not 0 if there are more
  than 1024 failures) and \<open>maxDelay\<close> is a finite double, the delays are
  \<open>min (baseDelay * 2 ^ (j - 1)) maxDelay\<close>: non-decreasing and at most \<open>maxDelay\<close>.
\<close>

theorem retry_succeeds_after_k:
  assumes "\<forall>e \<in> set errs. shouldRetry opts e \<and> \<not> lacks_headers e"
    and "length errs < maxRetries opts"
  shows "apiCallWithRetry rt (flaky errs v) opts 0 =
       (Inr v, length errs + 1,
        map (\<lambda>j. finalDelay rt opts (j + 1) (errs ! j)) [0..<length errs]) \<and>
     (\<forall>j < length errs. \<forall>s. retryAfter (errs ! j) = Some s \<and> s \<noteq> [] \<longrightarrow>
        snd (snd (apiCallWithRetry rt (flaky errs v) opts 0)) ! j = retryAfterMs rt s) \<and>
     ((\<forall>e \<in> set errs. \<not> hinted e) \<and> 0 \<le> baseDelay opts \<and>
      (baseDelay opts = 0 \<longrightarrow> length errs \<le> 1024) \<and> maxDelay opts < 2 ^ 1024 \<longrightarrow>
        snd (snd (apiCallWithRetry rt (flaky errs v) opts 0)) =
          map (\<lambda>j. Num (min (baseDelay opts * 2 ^ j) (maxDelay opts))) [0..<length errs] \<and>
        sorted (map (\<lambda>j. min (baseDelay opts * 2 ^ j) (maxDelay opts)) [0..<length errs]) \<and>
        (\<forall>j < length errs. min (baseDelay opts * 2 ^ j) (maxDelay opts) \<le> maxDelay opts))"
proof -
  have run: "apiCallWithRetry rt (flaky errs v) opts 0 =
       (Inr v, length errs + 1,
        map (\<lambda>j. finalDelay rt opts (j + 1) (errs ! j)) [0..<length errs])"
    using retry_loop_flaky[OF assms, of 0 rt v None "[]"] by (simp add: apiCallWithRetry_def)
  have hint: "\<forall>j < length errs. \<forall>s. retryAfter (errs ! j) = Some s \<and> s \<noteq> [] \<longrightarrow>
        snd (snd (apiCallWithRetry rt (flaky errs v) opts 0)) ! j = retryAfterMs rt s"
    unfolding run by (simp add: finalDelay_hinted)
  have plain: "snd (snd (apiCallWithRetry rt (flaky errs v) opts 0)) =
          map (\<lambda>j. Num (min (baseDelay opts * 2 ^ j) (maxDelay opts))) [0..<length errs]"
    if "\<forall>e \<in> set errs. \<not> hinted e" "0 \<le> baseDelay opts"
      "baseDelay opts = 0 \<longrightarrow> length errs \<le> 1024" "maxDelay opts < 2 ^ 1024"
    unfolding run using delays_unhinted[OF that] by simp
  show ?thesis
    using run hint plain backoff_sorted[of "baseDelay opts" "maxDelay opts" "length errs"]
    by simp
qed

lemmas retry_eval = default_retry_options_def default_shouldRetry_def error_status_def
  retryAfter_def hinted_def lacks_headers_def finalDelay_def unavailable_def rate_limited_def
  bare_response_def pow2_def retryAfterMs_def is_digit_def decimal_def

theorem retry_succeeds_after_k_witness:
  "length [unavailable, unavailable] < maxRetries default_retry_options \<and>
   shouldRetry default_retry_options unavailable \<and> \<not> lacks_headers unavailable \<and>
   \<not> hinted unavailable \<and> 0 \<le> baseDelay default_retry_options \<and>
   maxDelay default_retry_options < 2 ^ 1024 \<and>
   apiCallWithRetry (\<lambda>s. NaN) (flaky [unavailable, unavailable] ''payload'')
       default_retry_options 0 =
     (Inr ''payload'', 3, [Num 1000, Num 2000]) \<and>
   shouldRetry default_retry_options rate_limited \<and> \<not> lacks_headers rate_limited \<and>
   retryAfter rate_limited = Some ''60'' \<and>
   apiCallWithRetry (\<lambda>s. NaN) (flaky [rate_limited] ''payload'') default_retry_options 0 =
     (Inr ''payload'', 2, [Num 60000])"
proof -
  have h1: "\<forall>e \<in> set [unavailable, unavailable].
      shouldRetry default_retry_options e \<and> \<not> lacks_headers e"
    by (simp add: retry_eval)
  have h2: "length [unavailable, unavailable] < maxRetries default_retry_options"
    by (simp add: retry_eval)
  have h3: "\<forall>e \<in> set [rate_limited]. shouldRetry default_retry_options e \<and> \<not> lacks_headers e"
    by (simp add: retry_eval)
  have h4: "length [rate_limited] < maxRetries default_retry_options"
    by (simp add: retry_eval)
  from retry_succeeds_after_k[OF h1 h2, of "\<lambda>s. NaN" "''payload''"]
    retry_succeeds_after_k[OF h3 h4, of "\<lambda>s. NaN" "''payload''"]
  show ?thesis
    using h1 h2 h3 by (simp add: retry_eval upt_rec[of 0] upt_rec[of 1] upt_rec[of "Suc 0"])
qed

text \<open>
  A Retry-After header of 60 seconds gives a delay of 60000 ms, above the default
  \<open>maxDelay\<close> of 30000 ms and above the delay of 2000 ms that follows it.
\<close>

theorem retry_hint_exceeds_maxDelay:
  "shouldRetry default_retry_options rate_limited \<and>
   shouldRetry default_retry_options unavailable \<and>
   length [rate_limited, unavailable] < maxRetries default_retry_options \<and>
   apiCallWithRetry (\<lambda>s. NaN) (flaky [rate_limited, unavailable] ''payload'')
       default_retry_options 0 =
     (Inr ''payload'', 3, [Num 60000, Num 2000]) \<and>
   \<not> sorted [60000, 2000 :: int] \<and>
   \<not> (60000 \<le> maxDelay default_retry_options)"
  by (simp add: apiCallWithRetry_def retry_loop.simps flaky_def retry_eval)

text \<open>
  A retryable error whose response has no headers: the header access throws, and the
  call is not retried.
\<close>

lemma retry_without_headers:
  "shouldRetry default_retry_options bare_response \<and>
   apiCallWithRetry rt (flaky [bare_response] ''payload'') default_retry_options 0 =
     (Inl (Some type_error), 1, [])"
  by (simp add: apiCallWithRetry_def retry_loop.simps flaky_def retry_eval)

text \<open>A base delay of 0 gives the delay \<open>NaN\<close> from the attempt 1025 on.\<close>

lemma retry_delay_NaN:
  "finalDelay rt (default_retry_options\<lparr>baseDelay := 0\<rparr>) 1025 unavailable = NaN"
  by (simp add: retry_eval)


section \<open>Properties of the rate limiter\<close>


























lemmas limiter_eval = start_def RateLimiter_def canMakeRequest_def
  getTimeUntilNextRequest_def positive_def recordRequest_def Let_def clock_def
  bounded_wait_def is_recorded_def



text \<open>
  Two callers issued together on a limiter of capacity 1: both pass the check before
  either records, and both are admitted.
\<close>

lemma limiter_admits_callers_issued_together:
  "run (start 1 1000 2) [Check 0 [(0, 0, 0)], Check 1 [(0, 0, 0)], Resume 0 0, Resume 1 0] =
     Some \<lparr>limiter = \<lparr>requestsPerWindow = 1, windowMs = 1000, requests = [0, 0]\<rparr>,
           callers = [Recorded 0, Recorded 0], sleeps = []\<rparr>"
  by (simp add: limiter_eval numeral_2_eq_2)


section \<open>Properties of the training-data collection\<close>

lemma pkg_collect_full: "pkg (collect_full collect e) = pkg e"
  by (simp add: collect_full_def split: sum.splits)

lemma map_pkg_attach: "map pkg (attach_fullData collect k es) = map pkg es"
proof -
  have "map pkg (attach_fullData collect k es) = map pkg (take k es) @ map pkg (drop k es)"
    by (simp add: attach_fullData_def pkg_collect_full comp_def)
  then show ?thesis by (simp flip: map_append)
qed

lemma length_attach: "length (attach_fullData collect k es) = length es"
  using arg_cong[OF map_pkg_attach, of length collect k es] by simp

lemma drop_attach: "drop k (attach_fullData collect k es) = drop k es"
proof (cases "k \<le> length es")
  case True
  then show ?thesis by (simp add: attach_fullData_def)
next
  case False
  then show ?thesis by (simp add: attach_fullData_def)
qed

lemma no_fullData_unlabeled: "filter has_fullData (map unlabeled ps) = []"
  by (induction ps) (simp_all add: has_fullData_def unlabeled_def)

lemma fullData_beyond_cap:
  "e \<in> set (drop k (attach_fullData collect k (map unlabeled ps))) \<Longrightarrow> fullData e = None"
  by (auto simp: drop_attach unlabeled_def drop_map)

lemma fullData_capped:
  "length (filter has_fullData (attach_fullData collect k (map unlabeled ps))) \<le> k"
proof -
  let ?es = "map unlabeled ps"
  have "filter has_fullData (drop k ?es) = []"
    using no_fullData_unlabeled[of "drop k ps"] by (simp add: drop_map)
  then have "length (filter has_fullData (attach_fullData collect k ?es)) =
      length (filter has_fullData (map (collect_full collect) (take k ?es)))"
    by (simp add: attach_fullData_def)
  also have "\<dots> \<le> length (map (collect_full collect) (take k ?es))"
    by (rule length_filter_le)
  also have "\<dots> \<le> k" by simp
  finally show ?thesis .
qed

text \<open>
  Claim C9. When both package services return, the collector returns the requested
  slice of the malicious packages and the benign packages; at most 10 entries of the
  malicious list and at most 50 of the benign list carry \<open>fullData\<close>, and no entry
  beyond the first 10, respectively 50, carries it, whatever the counts requested and
  the lengths of the lists. The summary consists of the two lengths and the number of
  entries with \<open>fullData\<close>: the result has no field that reports the two limits.
\<close>

theorem training_fullData_capped:
  assumes "collectAllMalicious = Inr ms" and "collectAllBenign benignCount = Inr bs"
  shows "\<exists>res. collectLabeledTrainingData collectAllMalicious collectAllBenign collect
             maliciousCount benignCount = Inr res \<and>
     map pkg (malicious res) = slice0 ms maliciousCount \<and> map pkg (benign res) = bs \<and>
     length (filter has_fullData (malicious res)) \<le> 10 \<and>
     length (filter has_fullData (benign res)) \<le> 50 \<and>
     (\<forall>e \<in> set (drop 10 (malicious res)). fullData e = None) \<and>
     (\<forall>e \<in> set (drop 50 (benign res)). fullData e = None) \<and>
     training_summary res =
       \<lparr>totalMalicious = length (slice0 ms maliciousCount), totalBenign = length bs,
        totalWithFullData = length (filter has_fullData (malicious res)) +
                            length (filter has_fullData (benign res))\<rparr>"
proof -
  let ?m = "attach_fullData collect 10 (map unlabeled (slice0 ms maliciousCount))"
  let ?b = "attach_fullData collect 50 (map unlabeled bs)"
  let ?res = "\<lparr>malicious = ?m, benign = ?b,
      training_summary = \<lparr>totalMalicious = length ?m, totalBenign = length ?b,
        totalWithFullData = length (filter has_fullData ?m @ filter has_fullData ?b)\<rparr>\<rparr>"
  have run: "collectLabeledTrainingData collectAllMalicious collectAllBenign collect
      maliciousCount benignCount = Inr ?res"
    using assms by (simp add: collectLabeledTrainingData_def Let_def)
  have pk: "map pkg ?m = slice0 ms maliciousCount" "map pkg ?b = bs"
    by (simp_all add: map_pkg_attach comp_def unlabeled_def)
  have caps: "length (filter has_fullData ?m) \<le> 10" "length (filter has_fullData ?b) \<le> 50"
    by (rule fullData_capped)+
  have beyond: "\<forall>e \<in> set (drop 10 ?m). fullData e = None" "\<forall>e \<in> set (drop 50 ?b). fullData e = None"
    using fullData_beyond_cap by blast+
  have summ: "training_summary ?res =
       \<lparr>totalMalicious = length (slice0 ms maliciousCount), totalBenign = length bs,
        totalWithFullData = length (filter has_fullData ?m) + length (filter has_fullData ?b)\<rparr>"
    by (simp add: length_attach)
  show ?thesis
    apply (rule exI[of _ ?res])
    using run pk caps beyond summ by simp
qed

theorem training_fullData_capped_witness:
  "map_sum message training_summary
     (collectLabeledTrainingData
        (Inr [''m01'', ''m02'', ''m03'', ''m04'', ''m05'', ''m06'', ''m07'', ''m08'', ''m09'',
              ''m10'', ''m11'', ''m12''])
        (\<lambda>n. Inr [''lodash'']) (\<lambda>p. Inr p :: js_error + string) 1000 10000) =
   Inr \<lparr>totalMalicious = 12, totalBenign = 1, totalWithFullData = 11\<rparr>"
  using training_fullData_capped[of
      "Inr [''m01'', ''m02'', ''m03'', ''m04'', ''m05'', ''m06'', ''m07'', ''m08'', ''m09'',
              ''m10'', ''m11'', ''m12'']"
      "[''m01'', ''m02'', ''m03'', ''m04'', ''m05'', ''m06'', ''m07'', ''m08'', ''m09'',
              ''m10'', ''m11'', ''m12'']"
      "\<lambda>n. Inr [''lodash'']" 10000 "[''lodash'']" "\<lambda>p. Inr p :: js_error + string" 1000]
  by (simp add: collectLabeledTrainingData_def Let_def attach_fullData_def slice0_def
      collect_full_def unlabeled_def has_fullData_def)


section \<open>Properties of the dependency traversal\<close>

lemma buildDependencyTree_depth:
  "d \<in> set (buildDependencyTree fetch resolve pname ver maxDepth currentDepth visited) \<Longrightarrow>
   currentDepth < depth d \<and> depth d \<le> maxDepth"
proof (induction fetch resolve pname ver maxDepth currentDepth visited
    rule: buildDependencyTree.induct)
  case (1 fetch resolve pname ver maxDepth currentDepth visited)
  note mem = "1.prems"[unfolded
      buildDependencyTree.simps[of fetch resolve pname ver maxDepth currentDepth visited]]
  from mem have deeper: "currentDepth < maxDepth"
    by (auto split: if_splits)
  from mem have fresh: "pname @ ''@'' @ ver \<notin> visited"
    by (auto simp: Let_def split: if_splits)
  from mem deeper fresh obtain deps where fetched: "fetch pname ver = Inr deps"
    by (cases "fetch pname ver") (auto simp: Let_def)
  from mem deeper fresh fetched obtain dep where dep: "dep \<in> set deps" and
    here: "d \<in> set (\<lparr>td_name = dep_name dep,
               td_version = resolve (dep_name dep) (dep_version dep),
               td_type = ''transitive'', depth = currentDepth + 1, parent = pname\<rparr> #
             (if currentDepth + 1 < maxDepth
              then buildDependencyTree fetch resolve (dep_name dep)
                     (resolve (dep_name dep) (dep_version dep)) maxDepth (currentDepth + 1)
                     (insert (pname @ ''@'' @ ver) visited)
              else []))"
    by (auto simp: Let_def)
  from here have
    d: "d = \<lparr>td_name = dep_name dep, td_version = resolve (dep_name dep) (dep_version dep),
            td_type = ''transitive'', depth = currentDepth + 1, parent = pname\<rparr> \<or>
        (currentDepth + 1 < maxDepth \<and>
         d \<in> set (buildDependencyTree fetch resolve (dep_name dep)
                    (resolve (dep_name dep) (dep_version dep)) maxDepth (currentDepth + 1)
                    (insert (pname @ ''@'' @ ver) visited)))"
    by (auto split: if_splits)
  from d show ?case
  proof
    assume "d = \<lparr>td_name = dep_name dep, td_version = resolve (dep_name dep) (dep_version dep),
            td_type = ''transitive'', depth = currentDepth + 1, parent = pname\<rparr>"
    then show ?thesis using deeper by simp
  next
    assume rec: "currentDepth + 1 < maxDepth \<and>
         d \<in> set (buildDependencyTree fetch resolve (dep_name dep)
                    (resolve (dep_name dep) (dep_version dep)) maxDepth (currentDepth + 1)
                    (insert (pname @ ''@'' @ ver) visited))"
    have "currentDepth + 1 < depth d \<and> depth d \<le> maxDepth"
      using "1.IH"[OF _ refl fresh fetched dep refl] deeper rec by simp
    then show ?thesis by simp
  qed
qed

text \<open>
  Claim C10. The traversal is a total function: its recursion descends along
  \<open>maxDepth - currentDepth\<close>, as the termination proof of \<open>buildDependencyTree\<close> shows.
  It returns the empty list at the depth limit, for a key in the visited set and when
  the fetch fails, and every entry it returns has a depth above \<open>currentDepth\<close> and at
  most \<open>maxDepth\<close>.
\<close>

theorem buildDependencyTree_bounded:
  "(maxDepth \<le> currentDepth \<longrightarrow>
      buildDependencyTree fetch resolve pname ver maxDepth currentDepth visited = []) \<and>
   (pname @ ''@'' @ ver \<in> visited \<longrightarrow>
      buildDependencyTree fetch resolve pname ver maxDepth currentDepth visited = []) \<and>
   (fetch pname ver = Inl err \<longrightarrow>
      buildDependencyTree fetch resolve pname ver maxDepth currentDepth visited = []) \<and>
   (\<forall>d \<in> set (buildDependencyTree fetch resolve pname ver maxDepth currentDepth visited).
      currentDepth < depth d \<and> depth d \<le> maxDepth)"
proof (intro conjI impI ballI)
  assume "maxDepth \<le> currentDepth"
  then show "buildDependencyTree fetch resolve pname ver maxDepth currentDepth visited = []"
    by (subst buildDependencyTree.simps) simp
next
  assume "pname @ ''@'' @ ver \<in> visited"
  then show "buildDependencyTree fetch resolve pname ver maxDepth currentDepth visited = []"
    by (subst buildDependencyTree.simps) simp
next
  assume "fetch pname ver = Inl err"
  then show "buildDependencyTree fetch resolve pname ver maxDepth currentDepth visited = []"
    by (subst buildDependencyTree.simps) (simp add: Let_def)
next
  fix d
  assume "d \<in> set (buildDependencyTree fetch resolve pname ver maxDepth currentDepth visited)"
  then show "currentDepth < depth d" "depth d \<le> maxDepth"
    using buildDependencyTree_depth by blast+
qed

theorem buildDependencyTree_bounded_witness:
  "buildDependencyTree sample_fetch sample_resolve ''a'' ''1.0.0'' 5 0 {} =
     [\<lparr>td_name = ''b'', td_version = ''1.0.0'', td_type = ''transitive'', depth = 1, parent = ''a''\<rparr>,
      \<lparr>td_name = ''a'', td_version = ''1.0.0'', td_type = ''transitive'', depth = 2, parent = ''b''\<rparr>] \<and>
   buildDependencyTree sample_fetch sample_resolve ''a'' ''1.0.0'' 5 2 {''a@1.0.0'', ''b@1.0.0''} = [] \<and>
   buildDependencyTree sample_fetch sample_resolve ''c'' ''1.0.0'' 5 0 {} = [] \<and>
   buildDependencyTree sample_fetch sample_resolve ''a'' ''1.0.0'' 5 5 {} = []"
  using buildDependencyTree_bounded[of 5 5 sample_fetch sample_resolve "''a''" "''1.0.0''" "{}"
      "sample_error ''Package not found''"]
    buildDependencyTree_bounded[of 5 2 sample_fetch sample_resolve "''a''" "''1.0.0''"
      "{''a@1.0.0'', ''b@1.0.0''}" "sample_error ''Package not found''"]
    buildDependencyTree_bounded[of 5 0 sample_fetch sample_resolve "''c''" "''1.0.0''" "{}"
      "sample_error ''Package not found''"]
  by (simp add: buildDependencyTree.simps sample_fetch_def sample_resolve_def Let_def)

end
